theory Spec2Isabelle
  imports Main
begin

section \<open>Configuration constants of worker.js\<close>

definition SWR_SECONDS :: nat where
  "SWR_SECONDS = 86400"

definition MAX_RETRIES :: nat where
  "MAX_RETRIES = 2"

definition RETRY_DELAY_MS :: nat where
  "RETRY_DELAY_MS = 500"

definition GITHUB_HOSTS :: "string list" where
  "GITHUB_HOSTS =
     [''github.com'', ''raw.githubusercontent.com'', ''gist.github.com'',
      ''gist.githubusercontent.com'']"

section \<open>Responses and the outbound HTTP client\<close>

text \<open>
  A header set is an association list from lower-cased header names to values (the
  platform's \<^verbatim>\<open>Headers\<close> object matches names without regard to case).
  \<^verbatim>\<open>headers.get(name)\<close> is \<open>map_of hs name\<close>: \<open>None\<close> stands for JavaScript's
  \<^verbatim>\<open>null\<close>.
\<close>

type_synonym headers = "(string \<times> string) list"

record response =
  status :: nat
  statusText :: string
  resp_headers :: headers
  body :: "string option"

text \<open>\<^verbatim>\<open>response.ok\<close> of the Fetch API: the status is in the range 200 to 299.\<close>

definition ok :: "response \<Rightarrow> bool" where
  "ok r = (200 \<le> status r \<and> status r \<le> 299)"

text \<open>
  One call of the platform's \<^verbatim>\<open>fetch\<close> either resolves to a response or rejects.
  The abort raised by the 30 second timer of \<^verbatim>\<open>fetchWithRetry\<close> is one of the
  rejections: the model does not measure time, the environment says which attempts time out.
\<close>

datatype failure = Timeout_abort | Network_error string | Type_error string

datatype attempt = Responded response | Rejected failure

text \<open>What the worker does to the outside world, in the order it does it.\<close>

datatype event =
    Upstream_fetch nat
  | Sleep nat
  | Cache_match string
  | Cache_put string response
  | Early_hint string string

text \<open>
  How an async function ends: it returns a value, it throws, or it reaches the end of its
  body without a \<^verbatim>\<open>return\<close> (the promise resolves to \<^verbatim>\<open>undefined\<close>).
\<close>

datatype 'a completion = Returned 'a | Threw failure | No_return

section \<open>fetchWithRetry\<close>

text \<open>
  \<^verbatim>\<open>for (let i = 0; i <= retries; i++) { try { ... } catch (error) { ... } }\<close>

  \<open>upstream i\<close> is the outcome of the call of \<^verbatim>\<open>fetch(url, options)\<close> made in
  iteration \<open>i\<close> (each iteration makes exactly one call). \<open>retries\<close> is a count, a natural
  number; the only caller passes the default \<open>MAX_RETRIES\<close>. The function returns how the
  loop ends from iteration \<open>i\<close> on, and the events from there on.
\<close>

function fetchWithRetry_from ::
  "(nat \<Rightarrow> attempt) \<Rightarrow> nat \<Rightarrow> nat \<Rightarrow> response completion \<times> event list" where
  "fetchWithRetry_from upstream retries i =
     (if retries < i then (No_return, [])
      else
        (case upstream i of
           Responded r \<Rightarrow>
             if ok r \<or> (400 \<le> status r \<and> status r < 500) then (Returned r, [Upstream_fetch i])
             else if i < retries then
               (let (res, tr) = fetchWithRetry_from upstream retries (Suc i)
                in (res, Upstream_fetch i # Sleep (RETRY_DELAY_MS * (i + 1)) # tr))
             else (Returned r, [Upstream_fetch i])
         | Rejected e \<Rightarrow>
             if i < retries then
               (let (res, tr) = fetchWithRetry_from upstream retries (Suc i)
                in (res, Upstream_fetch i # Sleep (RETRY_DELAY_MS * (i + 1)) # tr))
             else (Threw e, [Upstream_fetch i])))"
  by pat_completeness auto
termination
  by (relation "measure (\<lambda>(upstream, retries, i). Suc retries - i)") auto

declare fetchWithRetry_from.simps [simp del]

definition fetchWithRetry :: "(nat \<Rightarrow> attempt) \<Rightarrow> nat \<Rightarrow> response completion \<times> event list" where
  "fetchWithRetry upstream retries = fetchWithRetry_from upstream retries 0"

text \<open>Reading a trace: the attempts made and the delays slept, in order.\<close>

fun is_fetch :: "event \<Rightarrow> bool" where
  "is_fetch (Upstream_fetch i) = True"
| "is_fetch e = False"

fun delays :: "event list \<Rightarrow> nat list" where
  "delays [] = []"
| "delays (Sleep d # es) = d # delays es"
| "delays (e # es) = delays es"

definition attempts :: "event list \<Rightarrow> nat" where
  "attempts tr = length (filter is_fetch tr)"

text \<open>
  The two ways an iteration goes: the attempt is final (a 2xx or 4xx response), or it is
  one the loop retries while \<open>i < retries\<close>. \<open>settle\<close> is how the last iteration ends.
\<close>

definition retryable :: "attempt \<Rightarrow> bool" where
  "retryable a =
     (case a of
        Responded r \<Rightarrow> \<not> ok r \<and> \<not> (400 \<le> status r \<and> status r < 500)
      | Rejected e \<Rightarrow> True)"

definition settle :: "attempt \<Rightarrow> response completion" where
  "settle a = (case a of Responded r \<Rightarrow> Returned r | Rejected e \<Rightarrow> Threw e)"

text \<open>The trace of \<open>k\<close> retried attempts from iteration \<open>i\<close> on, followed by a last one.\<close>

fun retry_trace :: "nat \<Rightarrow> nat \<Rightarrow> event list" where
  "retry_trace i 0 = [Upstream_fetch i]"
| "retry_trace i (Suc k) =
     Upstream_fetch i # Sleep (RETRY_DELAY_MS * (i + 1)) # retry_trace (Suc i) k"

subsection \<open>Example upstreams\<close>

text \<open>A response with a given status and nothing else.\<close>

definition bare :: "nat \<Rightarrow> response" where
  "bare s = \<lparr>status = s, statusText = [], resp_headers = [], body = None\<rparr>"

text \<open>An upstream that answers attempt \<open>i\<close> with the \<open>i\<close>-th status of a script.\<close>

definition replay :: "nat list \<Rightarrow> nat \<Rightarrow> attempt" where
  "replay ss i =
     (if i < length ss then Responded (bare (ss ! i)) else Rejected (Network_error ''script over''))"

definition always_timeout :: "nat \<Rightarrow> attempt" where
  "always_timeout i = Rejected Timeout_abort"

definition always_304 :: "nat \<Rightarrow> attempt" where
  "always_304 i = Responded (bare 304)"

section \<open>JavaScript string operations used by the worker\<close>

text \<open>
  Strings are lists of characters. \<^verbatim>\<open>s.split(sep)\<close> with a one-character separator:
  the empty string gives one empty piece, and \<open>n\<close> separators give \<open>n + 1\<close> pieces.
\<close>

fun split_on :: "char \<Rightarrow> string \<Rightarrow> string list" where
  "split_on sep [] = [[]]"
| "split_on sep (c # cs) =
     (if c = sep then [] # split_on sep cs
      else (case split_on sep cs of [] \<Rightarrow> [[c]] | p # ps \<Rightarrow> (c # p) # ps))"

text \<open>\<^verbatim>\<open>parts.join(sep)\<close>.\<close>

fun join :: "string \<Rightarrow> string list \<Rightarrow> string" where
  "join sep [] = []"
| "join sep [p] = p"
| "join sep (p # q # ps) = p @ sep @ join sep (q # ps)"

text \<open>\<^verbatim>\<open>hay.includes(needle)\<close>: the needle occurs at some position of the haystack.\<close>

fun starts_with :: "string \<Rightarrow> string \<Rightarrow> bool" where
  "starts_with s [] = True"
| "starts_with [] (d # ds) = False"
| "starts_with (c # cs) (d # ds) = (c = d \<and> starts_with cs ds)"

fun str_includes :: "string \<Rightarrow> string \<Rightarrow> bool" where
  "str_includes [] needle = (needle = [])"
| "str_includes (c # cs) needle = (starts_with (c # cs) needle \<or> str_includes cs needle)"

text \<open>
  \<^verbatim>\<open>String(n)\<close> for a natural number (\<open>digit_char\<close> is applied to numbers below 10
  only), and \<^verbatim>\<open>s.padStart(2, '0')\<close>.
\<close>

definition digit_char :: "nat \<Rightarrow> char" where
  "digit_char d = ''0123456789'' ! d"

fun show_nat :: "nat \<Rightarrow> string" where
  "show_nat n = (if n < 10 then [digit_char n] else show_nat (n div 10) @ [digit_char (n mod 10)])"

declare show_nat.simps [simp del]

definition padStart2 :: "string \<Rightarrow> string" where
  "padStart2 s = replicate (2 - length s) (CHR ''0'') @ s"

section \<open>Regular expressions of the worker\<close>

text \<open>
  The regular expressions of \<^verbatim>\<open>getCacheStrategy\<close> are built from literal characters,
  \<^verbatim>\<open>\d+\<close>, the optional \<^verbatim>\<open>?\<close> and sequence. \<open>rx_run r s\<close> lists what is left of \<open>s\<close>
  after each way of matching \<open>r\<close> at its start, as a backtracking matcher tries them;
  \<^verbatim>\<open>r.test(s)\<close> holds when \<open>r\<close> matches at some position of \<open>s\<close>. Without the
  \<^verbatim>\<open>u\<close> flag \<^verbatim>\<open>\d\<close> is one of the ten ASCII digits.
\<close>

datatype rx = Eps | Chr char | Digits | Seq rx rx | Opt rx

definition is_digit :: "char \<Rightarrow> bool" where
  "is_digit c = (c \<in> set ''0123456789'')"

fun digit_runs :: "string \<Rightarrow> string list" where
  "digit_runs [] = []"
| "digit_runs (c # cs) = (if is_digit c then cs # digit_runs cs else [])"

fun rx_run :: "rx \<Rightarrow> string \<Rightarrow> string list" where
  "rx_run Eps s = [s]"
| "rx_run (Chr d) s = (case s of [] \<Rightarrow> [] | c # cs \<Rightarrow> if c = d then [cs] else [])"
| "rx_run Digits s = digit_runs s"
| "rx_run (Seq a b) s = concat (map (rx_run b) (rx_run a s))"
| "rx_run (Opt a) s = rx_run a s @ [s]"

fun rx_test :: "rx \<Rightarrow> string \<Rightarrow> bool" where
  "rx_test r [] = (rx_run r [] \<noteq> [])"
| "rx_test r (c # cs) = (rx_run r (c # cs) \<noteq> [] \<or> rx_test r cs)"

text \<open>A literal word.\<close>

fun word :: "string \<Rightarrow> rx" where
  "word [] = Eps"
| "word [c] = Chr c"
| "word (c # d # ds) = Seq (Chr c) (word (d # ds))"

section \<open>extractETag\<close>

definition dquote :: char where
  "dquote = CHR 0x22"

text \<open>
  \<^verbatim>\<open>etag.replace(/^W\/"|"/g, '')\<close>. The first alternative is anchored, so it can match
  only at index 0, where it is tried before the second one; the global scan then goes on
  after the match, where only the second alternative, a double quote, can match. So a
  leading \<^verbatim>\<open>W/"\<close> is removed, and every double quote left.
\<close>

definition strip_etag :: "string \<Rightarrow> string" where
  "strip_etag etag =
     filter (\<lambda>c. c \<noteq> dquote)
       (if starts_with etag [CHR ''W'', CHR ''/'', dquote] then drop 3 etag else etag)"

text \<open>
  \<^verbatim>\<open>if (!etag) return null\<close>: a missing header (\<^verbatim>\<open>null\<close>) and an empty value are
  both falsy. \<^verbatim>\<open>substring(0, 32)\<close> keeps the first 32 characters.
\<close>

definition extractETag :: "response \<Rightarrow> string option" where
  "extractETag response =
     (case map_of (resp_headers response) ''etag'' of
        None \<Rightarrow> None
      | Some etag \<Rightarrow> if etag = [] then None else Some (take 32 (strip_etag etag)))"

section \<open>getCacheStrategy\<close>

record cache_strategy =
  edgeTTL :: nat
  browserTTL :: nat
  useETag :: bool
  description :: string

definition dynamic_strategy :: cache_strategy where
  "dynamic_strategy = \<lparr>edgeTTL = 3600, browserTTL = 300, useETag = True, description = ''dynamic''\<rparr>"

definition versioned_strategy :: cache_strategy where
  "versioned_strategy =
     \<lparr>edgeTTL = 2592000, browserTTL = 86400, useETag = False, description = ''versioned''\<rparr>"

definition default_strategy :: cache_strategy where
  "default_strategy = \<lparr>edgeTTL = 86400, browserTTL = 3600, useETag = True, description = ''default''\<rparr>"

text \<open>\<^verbatim>\<open>/\/v?\d+\.\d+(\.\d+)?\//\<close>\<close>

definition rx_version_segment :: rx where
  "rx_version_segment =
     Seq (Chr (CHR ''/'')) (Seq (Opt (Chr (CHR ''v''))) (Seq Digits (Seq (Chr (CHR ''.''))
       (Seq Digits (Seq (Opt (Seq (Chr (CHR ''.'')) Digits)) (Chr (CHR ''/'')))))))"

text \<open>\<^verbatim>\<open>/\/tags?\//\<close>\<close>

definition rx_tags :: rx where
  "rx_tags = Seq (word ''/tag'') (Seq (Opt (Chr (CHR ''s''))) (Chr (CHR ''/'')))"

text \<open>\<^verbatim>\<open>/\/releases\/download\/v?\d+/\<close>\<close>

definition rx_release_download :: rx where
  "rx_release_download = Seq (word ''/releases/download/'') (Seq (Opt (Chr (CHR ''v''))) Digits)"

definition is_dynamic_path :: "string \<Rightarrow> bool" where
  "is_dynamic_path pathname =
     (str_includes pathname ''/latest/'' \<or> str_includes pathname ''/nightly/''
      \<or> str_includes pathname ''/master/'' \<or> str_includes pathname ''/main/'')"

definition is_versioned_path :: "string \<Rightarrow> bool" where
  "is_versioned_path pathname =
     (rx_test rx_version_segment pathname \<or> rx_test rx_tags pathname
      \<or> rx_test rx_release_download pathname)"

definition getCacheStrategy :: "string \<Rightarrow> cache_strategy" where
  "getCacheStrategy pathname =
     (if is_dynamic_path pathname then dynamic_strategy
      else if is_versioned_path pathname then versioned_strategy
      else default_strategy)"

section \<open>parseGitHubPath\<close>

record github_info =
  host :: string
  path :: string
  fullUrl :: string

text \<open>\<^verbatim>\<open>pathname.split('/').filter(p => p)\<close>: the non-empty segments.\<close>

definition segments :: "string \<Rightarrow> string list" where
  "segments pathname = filter (\<lambda>p. p \<noteq> []) (split_on (CHR ''/'') pathname)"

definition parseGitHubPath :: "string \<Rightarrow> github_info option" where
  "parseGitHubPath pathname =
     (case segments pathname of
        [] \<Rightarrow> None
      | first # rest \<Rightarrow>
          (let (githubHost, githubPath) =
                 (if first \<in> set GITHUB_HOSTS then (first, ''/'' @ join ''/'' rest)
                  else (''github.com'', pathname))
           in Some \<lparr>host = githubHost, path = githubPath,
                     fullUrl = ''https://'' @ githubHost @ githubPath\<rparr>))"

text \<open>A response that carries the given \<^verbatim>\<open>ETag\<close> header and no other.\<close>

definition etag_response :: "string \<Rightarrow> response" where
  "etag_response e =
     \<lparr>status = 200, statusText = ''OK'', resp_headers = [(''etag'', e)], body = None\<rparr>"

section \<open>URLs and their query parameters\<close>

text \<open>
  \<^verbatim>\<open>new URL(s)\<close> is the platform's parser, not code of the worker. A URL is modelled as
  the record of what the parsed object holds: \<open>origin\<close> (scheme, host and port, as in
  \<^verbatim>\<open>https://example.com\<close>), \<open>pathname\<close>, \<open>query\<close> (the query as it was sent, without
  the \<^verbatim>\<open>?\<close>; \<open>None\<close> when the URL has no \<^verbatim>\<open>?\<close>), \<open>searchParams\<close> (the name and
  value pairs the platform decoded from the query, in order) and \<open>hash\<close> (the part of
  the serialized URL from \<^verbatim>\<open>#\<close> on; empty when the URL has no \<^verbatim>\<open>#\<close>).

  \<^verbatim>\<open>url.search\<close> is empty when the query is missing or empty, and otherwise
  \<^verbatim>\<open>?\<close> and the query. \<^verbatim>\<open>url.toString()\<close> is \<open>href\<close>, which keeps the \<^verbatim>\<open>?\<close> of
  an empty query.
\<close>

record url =
  origin :: string
  pathname :: string
  query :: "string option"
  searchParams :: "(string \<times> string) list"
  hash :: string

definition search :: "url \<Rightarrow> string" where
  "search u = (case query u of None \<Rightarrow> [] | Some q \<Rightarrow> if q = [] then [] else ''?'' @ q)"

definition href :: "url \<Rightarrow> string" where
  "href u =
     origin u @ pathname u @ (case query u of None \<Rightarrow> [] | Some q \<Rightarrow> ''?'' @ q) @ hash u"

text \<open>
  The \<^verbatim>\<open>application/x-www-form-urlencoded\<close> serializer of the URL standard, which
  \<^verbatim>\<open>searchParams.set\<close> runs to rewrite the query. A space becomes \<^verbatim>\<open>+\<close>; letters,
  digits and \<^verbatim>\<open>* - . _\<close> stay; every other character is encoded in UTF-8 and each
  byte written as \<^verbatim>\<open>%\<close> and two upper-case hexadecimal digits. Characters here are code
  points below 256 (the range of header values), so the UTF-8 encoding has one byte below
  128 and two bytes from 128 on.
\<close>

definition urlencoded_safe :: "char \<Rightarrow> bool" where
  "urlencoded_safe c =
     (c \<in> set ''ABCDEFGHIJKLMNOPQRSTUVWXYZabcdefghijklmnopqrstuvwxyz0123456789*-._'')"

definition hex_digit :: "nat \<Rightarrow> char" where
  "hex_digit d = ''0123456789ABCDEF'' ! (d mod 16)"

definition percent_byte :: "nat \<Rightarrow> string" where
  "percent_byte b = [CHR ''%'', hex_digit (b div 16), hex_digit (b mod 16)]"

definition utf8_bytes :: "char \<Rightarrow> nat list" where
  "utf8_bytes c =
     (let n = (of_char c :: nat)
      in if n < 128 then [n] else [192 + n div 64, 128 + n mod 64])"

definition urlencode_char :: "char \<Rightarrow> string" where
  "urlencode_char c =
     (if c = CHR '' '' then ''+''
      else if urlencoded_safe c then [c]
      else concat (map percent_byte (utf8_bytes c)))"

definition urlencode :: "string \<Rightarrow> string" where
  "urlencode s = concat (map urlencode_char s)"

fun urlencoded_serialize :: "(string \<times> string) list \<Rightarrow> string" where
  "urlencoded_serialize [] = []"
| "urlencoded_serialize [(n, v)] = urlencode n @ ''='' @ urlencode v"
| "urlencoded_serialize ((n, v) # p # ps) =
     urlencode n @ ''='' @ urlencode v @ ''&'' @ urlencoded_serialize (p # ps)"

text \<open>
  \<^verbatim>\<open>searchParams.set(name, value)\<close>: the first pair with that name gets the value and
  the other pairs with that name are removed; without such a pair, the new pair is appended.
  The URL's query is then replaced by the serialization of the list (no query at all when
  the serialization is empty).
\<close>

fun params_set :: "string \<Rightarrow> string \<Rightarrow> (string \<times> string) list \<Rightarrow> (string \<times> string) list" where
  "params_set name val [] = [(name, val)]"
| "params_set name val ((k, w) # ps) =
     (if k = name then (name, val) # filter (\<lambda>p. fst p \<noteq> name) ps
      else (k, w) # params_set name val ps)"

definition searchParams_set :: "string \<Rightarrow> string \<Rightarrow> url \<Rightarrow> url" where
  "searchParams_set name val u =
     (let ps = params_set name val (searchParams u);
          q = urlencoded_serialize ps
      in u\<lparr>searchParams := ps, query := (if q = [] then None else Some q)\<rparr>)"

section \<open>getCacheVersion and getOptimalCacheKey\<close>

text \<open>
  The clock, as \<^verbatim>\<open>getCacheVersion\<close> reads it: \<^verbatim>\<open>getUTCFullYear()\<close>,
  \<^verbatim>\<open>getUTCMonth()\<close> (from 0 to 11) and \<^verbatim>\<open>getUTCDate()\<close>.
\<close>

record utc_date =
  utcFullYear :: nat
  utcMonth :: nat
  utcDate :: nat

definition getCacheVersion :: "utc_date \<Rightarrow> string" where
  "getCacheVersion now =
     show_nat (utcFullYear now) @ padStart2 (show_nat (utcMonth now + 1))
       @ padStart2 (show_nat (utcDate now))"

text \<open>
  \<^verbatim>\<open>version || getCacheVersion()\<close>: \<^verbatim>\<open>null\<close> and the empty string are both falsy.
\<close>

definition effective_version :: "utc_date \<Rightarrow> string option \<Rightarrow> string" where
  "effective_version now version =
     (case version of
        None \<Rightarrow> getCacheVersion now
      | Some v \<Rightarrow> if v = [] then getCacheVersion now else v)"

text \<open>
  The URL object \<^verbatim>\<open>cacheUrl\<close> at the end of \<^verbatim>\<open>getOptimalCacheKey\<close>, and the key,
  its \<^verbatim>\<open>toString()\<close>. The clock is an argument.
\<close>

definition cacheUrl :: "utc_date \<Rightarrow> url \<Rightarrow> string \<Rightarrow> string option \<Rightarrow> url" where
  "cacheUrl now u acceptEncoding version =
     (let cacheVersion = effective_version now version;
          c = searchParams_set ''__v'' cacheVersion u
      in if acceptEncoding \<noteq> [] then
           (if str_includes acceptEncoding ''br'' then searchParams_set ''__enc'' ''br'' c
            else if str_includes acceptEncoding ''gzip'' then searchParams_set ''__enc'' ''gzip'' c
            else c)
         else c)"

definition getOptimalCacheKey :: "utc_date \<Rightarrow> url \<Rightarrow> string \<Rightarrow> string option \<Rightarrow> string" where
  "getOptimalCacheKey now u acceptEncoding version = href (cacheUrl now u acceptEncoding version)"

subsection \<open>Example URLs and dates\<close>

definition example_url :: "(string \<times> string) list \<Rightarrow> url" where
  "example_url ps =
     \<lparr>origin = ''https://gh.example.com'', pathname = ''/user/repo/raw/main/a.txt'',
      query = (if ps = [] then None else Some (urlencoded_serialize ps)),
      searchParams = ps, hash = []\<rparr>"

definition example_day :: utc_date where
  "example_day = \<lparr>utcFullYear = 2026, utcMonth = 10, utcDate = 1\<rparr>"

text \<open>
  The encoding tag that \<^verbatim>\<open>getOptimalCacheKey\<close> sets, and the query pairs of the key.
\<close>

definition encoding_tag :: "string \<Rightarrow> string option" where
  "encoding_tag acceptEncoding =
     (if acceptEncoding \<noteq> [] \<and> str_includes acceptEncoding ''br'' then Some ''br''
      else if acceptEncoding \<noteq> [] \<and> str_includes acceptEncoding ''gzip'' then Some ''gzip''
      else None)"

definition key_params ::
  "utc_date \<Rightarrow> (string \<times> string) list \<Rightarrow> string \<Rightarrow> string option \<Rightarrow> (string \<times> string) list" where
  "key_params now ps acceptEncoding version =
     (let ps1 = params_set ''__v'' (effective_version now version) ps
      in case encoding_tag acceptEncoding of None \<Rightarrow> ps1 | Some t \<Rightarrow> params_set ''__enc'' t ps1)"

text \<open>The serialization of a list with an ampersand after every pair.\<close>

fun ser_amp :: "(string \<times> string) list \<Rightarrow> string" where
  "ser_amp [] = []"
| "ser_amp ((n, v) # ps) = urlencode n @ (''='' @ (urlencode v @ (''&'' @ ser_amp ps)))"

text \<open>A string that starts with one of the two separators of a serialized query.\<close>

definition is_sep :: "string \<Rightarrow> bool" where
  "is_sep X = (case X of [] \<Rightarrow> False | c # cs \<Rightarrow> c = CHR ''='' \<or> c = CHR ''&'')"

section \<open>The request handler\<close>

definition ENABLE_EARLY_HINTS :: bool where
  "ENABLE_EARLY_HINTS = True"

record request =
  req_method :: string
  req_url :: url
  req_headers :: headers

text \<open>
  The environment of one request: the UTC day the clock shows, the edge cache
  (\<^verbatim>\<open>caches.default\<close>, looked up by the URL of the key request), the upstream (the
  outcome of attempt \<open>i\<close> for a URL, a method and the forwarded headers), and the
  milliseconds that \<^verbatim>\<open>Date.now() - startTime\<close> gives when the response is built. One
  request is taken to see one UTC day.
\<close>

record env =
  env_today :: utc_date
  env_cache :: "string \<Rightarrow> response option"
  env_upstream :: "string \<Rightarrow> string \<Rightarrow> headers \<Rightarrow> nat \<Rightarrow> attempt"
  env_elapsed_ms :: nat

text \<open>
  \<^verbatim>\<open>headers.set(name, value)\<close> replaces the first header of that name and removes the
  others, or appends, as \<^verbatim>\<open>searchParams.set\<close> does. A value is truthy when it is
  neither \<^verbatim>\<open>null\<close> nor empty.
\<close>

definition headers_set :: "string \<Rightarrow> string \<Rightarrow> headers \<Rightarrow> headers" where
  "headers_set name val hs = params_set name val hs"

definition truthy :: "string option \<Rightarrow> bool" where
  "truthy v = (case v of None \<Rightarrow> False | Some s \<Rightarrow> s \<noteq> [])"

text \<open>The three early answers.\<close>

definition invalid_path_response :: response where
  "invalid_path_response =
     \<lparr>status = 400, statusText = [],
      resp_headers = [(''content-type'', ''text/plain'')],
      body = Some ''Invalid path. Usage: /[github.com]/user/repo/path/to/file''\<rparr>"

definition preflight_response :: response where
  "preflight_response =
     \<lparr>status = 204, statusText = [],
      resp_headers =
        [(''access-control-allow-origin'', ''*''),
         (''access-control-allow-methods'', ''GET,HEAD,OPTIONS''),
         (''access-control-allow-headers'', ''*''),
         (''access-control-max-age'', ''86400'')],
      body = None\<rparr>"

text \<open>
  \<^verbatim>\<open>new Response("Method Not Allowed", { status: 405 })\<close>: a string body without a
  content type gets the type of text from the platform.
\<close>

definition method_not_allowed_response :: response where
  "method_not_allowed_response =
     \<lparr>status = 405, statusText = [],
      resp_headers = [(''content-type'', ''text/plain;charset=UTF-8'')],
      body = Some ''Method Not Allowed''\<rparr>"

text \<open>\<^verbatim>\<open>request.headers.get("accept-encoding") || ""\<close>\<close>

definition accept_encoding_of :: "request \<Rightarrow> string" where
  "accept_encoding_of request =
     (case map_of (req_headers request) ''accept-encoding'' of None \<Rightarrow> [] | Some v \<Rightarrow> v)"

text \<open>\<^verbatim>\<open>!!request.headers.get("range")\<close>\<close>

definition isRange :: "request \<Rightarrow> bool" where
  "isRange request = truthy (map_of (req_headers request) ''range'')"

text \<open>The key of the lookup, built before the upstream is asked.\<close>

definition initialCacheKey :: "utc_date \<Rightarrow> request \<Rightarrow> string" where
  "initialCacheKey today request =
     getOptimalCacheKey today (req_url request) (accept_encoding_of request) None"

text \<open>The headers forwarded to the upstream: those of the list that are present and not empty.\<close>

definition passHeaders :: "request \<Rightarrow> headers" where
  "passHeaders request =
     concat (map (\<lambda>h. case map_of (req_headers request) h of
                         None \<Rightarrow> []
                       | Some v \<Rightarrow> if v = [] then [] else [(h, v)])
       [''range'', ''if-range'', ''if-none-match'', ''if-modified-since'', ''user-agent'',
        ''accept'', ''accept-encoding''])"

text \<open>
  \<^verbatim>\<open>finalCacheKey\<close> and \<^verbatim>\<open>cacheVersion\<close> after the upstream answered: the ETag
  supersedes the date only when the strategy uses ETags and the normalized ETag is truthy.
\<close>

definition finalCacheKey :: "utc_date \<Rightarrow> request \<Rightarrow> cache_strategy \<Rightarrow> response \<Rightarrow> string" where
  "finalCacheKey today request cacheStrategy upstreamResp =
     (if useETag cacheStrategy then
        (case extractETag upstreamResp of
           None \<Rightarrow> initialCacheKey today request
         | Some etag \<Rightarrow>
             if etag = [] then initialCacheKey today request
             else getOptimalCacheKey today (req_url request) (accept_encoding_of request)
                    (Some etag))
      else initialCacheKey today request)"

definition mirror_version :: "utc_date \<Rightarrow> cache_strategy \<Rightarrow> response \<Rightarrow> string" where
  "mirror_version today cacheStrategy upstreamResp =
     (if useETag cacheStrategy then
        (case extractETag upstreamResp of
           None \<Rightarrow> getCacheVersion today
         | Some etag \<Rightarrow> if etag = [] then getCacheVersion today else etag)
      else getCacheVersion today)"

text \<open>The response served from the edge cache.\<close>

definition hit_response :: "cache_strategy \<Rightarrow> nat \<Rightarrow> response \<Rightarrow> response" where
  "hit_response cacheStrategy ms hit =
     \<lparr>status = status hit, statusText = [],
      resp_headers =
        headers_set ''x-response-time'' (show_nat ms @ ''ms'')
          (headers_set ''x-cache-strategy'' (description cacheStrategy)
            (headers_set ''x-cache-status'' ''HIT'' (resp_headers hit))),
      body = body hit\<rparr>"

text \<open>The response built from the upstream's answer; the sets are applied in source order.\<close>

definition miss_headers ::
  "cache_strategy \<Rightarrow> string \<Rightarrow> string \<Rightarrow> nat \<Rightarrow> headers \<Rightarrow> headers" where
  "miss_headers cacheStrategy cacheVersion upstreamUrl ms hs =
     fold (\<lambda>(name, val). headers_set name val)
       [(''cache-control'',
           ''public, max-age='' @ show_nat (browserTTL cacheStrategy)
             @ '', s-maxage='' @ show_nat (edgeTTL cacheStrategy)
             @ '', stale-while-revalidate='' @ show_nat SWR_SECONDS),
        (''vary'',
           (case map_of hs ''vary'' of
              None \<Rightarrow> ''Accept-Encoding''
            | Some v \<Rightarrow> ''Accept-Encoding, '' @ v)),
        (''access-control-allow-origin'', ''*''),
        (''access-control-expose-headers'', ''*''),
        (''x-mirror-version'', cacheVersion),
        (''x-cache-strategy'', description cacheStrategy),
        (''x-github-target'', upstreamUrl),
        (''x-cache-status'', ''MISS''),
        (''x-response-time'', show_nat ms @ ''ms''),
        (''x-content-type-options'', ''nosniff''),
        (''x-frame-options'', ''SAMEORIGIN''),
        (''connection'', ''keep-alive''),
        (''keep-alive'', ''timeout=60, max=1000'')]
       hs"

definition miss_response ::
  "cache_strategy \<Rightarrow> string \<Rightarrow> string \<Rightarrow> nat \<Rightarrow> response \<Rightarrow> response" where
  "miss_response cacheStrategy cacheVersion upstreamUrl ms upstreamResp =
     \<lparr>status = status upstreamResp, statusText = statusText upstreamResp,
      resp_headers =
        miss_headers cacheStrategy cacheVersion upstreamUrl ms (resp_headers upstreamResp),
      body = body upstreamResp\<rparr>"

text \<open>
  The handler \<^verbatim>\<open>fetch(request, env, ctx)\<close>: how it ends, and the events it causes in
  order. The early hint and the cache write are handed to \<^verbatim>\<open>ctx.waitUntil\<close>; the trace
  records that they were scheduled.
\<close>

definition fetch_handler :: "env \<Rightarrow> request \<Rightarrow> response completion \<times> event list" where
  "fetch_handler e request =
     (let url = req_url request in
      case parseGitHubPath (pathname url) of
        None \<Rightarrow> (Returned invalid_path_response, [])
      | Some githubInfo \<Rightarrow>
          if req_method request = ''OPTIONS'' then (Returned preflight_response, [])
          else if req_method request \<noteq> ''GET'' \<and> req_method request \<noteq> ''HEAD''
          then (Returned method_not_allowed_response, [])
          else
            (let cacheStrategy = getCacheStrategy (path githubInfo);
                 cacheKey = initialCacheKey (env_today e) request;
                 upstreamUrl = fullUrl githubInfo @ search url;
                 hints =
                   (if ENABLE_EARLY_HINTS \<and> req_method request = ''GET''
                    then [Early_hint (href url) (''<'' @ upstreamUrl @ ''>; rel=preconnect'')]
                    else []);
                 lookup = (req_method request = ''GET'' \<and> \<not> isRange request);
                 looked = (if lookup then [Cache_match cacheKey] else [])
             in case (if lookup then env_cache e cacheKey else None) of
                  Some hit \<Rightarrow>
                    (Returned (hit_response cacheStrategy (env_elapsed_ms e) hit), hints @ looked)
                | None \<Rightarrow>
                    (case fetchWithRetry
                            (env_upstream e upstreamUrl (req_method request) (passHeaders request))
                            MAX_RETRIES of
                       (Threw err, tr) \<Rightarrow> (Threw err, hints @ looked @ tr)
                     | (No_return, tr) \<Rightarrow>
                         (Threw (Type_error ''upstreamResp is undefined''), hints @ looked @ tr)
                     | (Returned upstreamResp, tr) \<Rightarrow>
                         (let out =
                                miss_response cacheStrategy
                                  (mirror_version (env_today e) cacheStrategy upstreamResp)
                                  upstreamUrl (env_elapsed_ms e) upstreamResp;
                              stored =
                                (if req_method request = ''GET'' \<and> status upstreamResp = 200
                                    \<and> \<not> isRange request
                                 then [Cache_put
                                         (finalCacheKey (env_today e) request cacheStrategy
                                            upstreamResp)
                                         out]
                                 else [])
                          in (Returned out, hints @ looked @ tr @ stored)))))"

subsection \<open>Example requests and environments\<close>

definition example_request :: "string \<Rightarrow> string \<Rightarrow> headers \<Rightarrow> request" where
  "example_request m p hs =
     \<lparr>req_method = m,
      req_url = \<lparr>origin = ''https://gh.example.com'', pathname = p, query = None,
                 searchParams = [], hash = []\<rparr>,
      req_headers = hs\<rparr>"

definition empty_cache :: "string \<Rightarrow> response option" where
  "empty_cache k = None"

definition upstream_200 :: "string \<Rightarrow> string \<Rightarrow> headers \<Rightarrow> nat \<Rightarrow> attempt" where
  "upstream_200 u m hs i = Responded (etag_response (dquote # ''5f3a'' @ [dquote]))"

definition example_env :: env where
  "example_env =
     \<lparr>env_today = example_day, env_cache = empty_cache, env_upstream = upstream_200,
      env_elapsed_ms = 12\<rparr>"

text \<open>Reading a trace: the keys looked up in the edge cache, and the keys written to it.\<close>

definition looked_up :: "event list \<Rightarrow> string list" where
  "looked_up tr = concat (map (\<lambda>ev. case ev of Cache_match k \<Rightarrow> [k] | _ \<Rightarrow> []) tr)"

definition stored_keys :: "event list \<Rightarrow> string list" where
  "stored_keys tr = concat (map (\<lambda>ev. case ev of Cache_put k r \<Rightarrow> [k] | _ \<Rightarrow> []) tr)"

text \<open>
  The components of a parsed \<^verbatim>\<open>http\<close> or \<^verbatim>\<open>https\<close> URL: the origin is a scheme,
  \<^verbatim>\<open>://\<close> and a host with an optional port, so it has two slashes and no question mark;
  the path starts with a slash and has no question mark; the hash is empty or starts with
  \<^verbatim>\<open>#\<close>.
\<close>

definition url_wf :: "url \<Rightarrow> bool" where
  "url_wf u =
     (length (filter (\<lambda>c. c = CHR ''/'') (origin u)) = 2
      \<and> CHR ''?'' \<notin> set (origin u)
      \<and> starts_with (pathname u) ''/''
      \<and> CHR ''?'' \<notin> set (pathname u)
      \<and> (hash u = [] \<or> starts_with (hash u) ''#''))"

text \<open>The example URL with another path.\<close>

definition other_path_url :: "(string \<times> string) list \<Rightarrow> url" where
  "other_path_url ps = (example_url ps)\<lparr>pathname := ''/user/repo/raw/main/b.txt''\<rparr>"

section \<open>The retry loop\<close>

lemma from_last: "fetchWithRetry_from f n n = (settle (f n), [Upstream_fetch n])"
  by (subst fetchWithRetry_from.simps) (simp add: settle_def split: attempt.splits)

lemma from_done:
  "i \<le> n \<Longrightarrow> \<not> retryable (f i) \<Longrightarrow>
   fetchWithRetry_from f n i = (settle (f i), [Upstream_fetch i])"
  by (subst fetchWithRetry_from.simps)
     (auto simp: retryable_def settle_def split: attempt.splits)

lemma from_retry:
  "i < n \<Longrightarrow> retryable (f i) \<Longrightarrow>
   fetchWithRetry_from f n i =
     (fst (fetchWithRetry_from f n (Suc i)),
      Upstream_fetch i # Sleep (RETRY_DELAY_MS * (i + 1)) # snd (fetchWithRetry_from f n (Suc i)))"
  by (subst fetchWithRetry_from.simps)
     (auto simp: retryable_def split: attempt.splits prod.splits)

lemma from_shape_aux:
  "i + d = n \<Longrightarrow> \<exists>k\<le>d. snd (fetchWithRetry_from f n i) = retry_trace i k"
proof (induction d arbitrary: i)
  case 0
  then show ?case by (simp add: from_last)
next
  case (Suc d)
  show ?case
  proof (cases "retryable (f i)")
    case True
    from Suc.IH[of "Suc i"] Suc.prems
    obtain k where k: "k \<le> d" "snd (fetchWithRetry_from f n (Suc i)) = retry_trace (Suc i) k"
      by auto
    have "i < n" using Suc.prems by simp
    then have "snd (fetchWithRetry_from f n i) = retry_trace i (Suc k)"
      using True k by (simp add: from_retry)
    then show ?thesis using k(1) by (intro exI[of _ "Suc k"]) simp
  next
    case False
    have "i \<le> n" using Suc.prems by simp
    then have "snd (fetchWithRetry_from f n i) = retry_trace i 0"
      using False by (simp add: from_done)
    then show ?thesis by (intro exI[of _ 0]) simp
  qed
qed

lemma from_shape: "\<exists>k\<le>n. snd (fetchWithRetry f n) = retry_trace 0 k"
  using from_shape_aux[of 0 n n f] by (simp add: fetchWithRetry_def)

lemma attempts_retry_trace: "attempts (retry_trace i k) = Suc k"
  by (induction i k rule: retry_trace.induct) (simp_all add: attempts_def)

lemma delays_retry_trace:
  "delays (retry_trace i k) = map (\<lambda>j. RETRY_DELAY_MS * j) [Suc i..<Suc i + k]"
  by (induction i k rule: retry_trace.induct)
     (simp_all add: upt_rec[of "Suc i" "Suc (Suc (i + k))" for i k] del: upt_Suc)

lemma from_all_retryable_aux:
  "i + d = n \<Longrightarrow> (\<forall>j\<le>n. retryable (f j)) \<Longrightarrow>
   fetchWithRetry_from f n i = (settle (f n), retry_trace i d)"
proof (induction d arbitrary: i)
  case 0
  then show ?case by (simp add: from_last)
next
  case (Suc d)
  have lt: "i < n" using Suc.prems by simp
  have r: "retryable (f i)" using Suc.prems by simp
  have "fetchWithRetry_from f n (Suc i) = (settle (f n), retry_trace (Suc i) d)"
    using Suc.IH[of "Suc i"] Suc.prems by simp
  then show ?case using lt r by (simp add: from_retry)
qed

lemma all_retryable:
  "(\<forall>j\<le>n. retryable (f j)) \<Longrightarrow> fetchWithRetry f n = (settle (f n), retry_trace 0 n)"
  using from_all_retryable_aux[of 0 n n f] by (simp add: fetchWithRetry_def)

lemma attempts_bound: "attempts (snd (fetchWithRetry f n)) \<le> n + 1"
  using from_shape[of n f] by (auto simp: attempts_retry_trace)

lemma delays_linear:
  "delays (snd (fetchWithRetry f n)) =
     map (\<lambda>j. RETRY_DELAY_MS * j) [1..<attempts (snd (fetchWithRetry f n))]"
  using from_shape[of n f] by (auto simp: attempts_retry_trace delays_retry_trace)

lemma from_result_aux:
  "i + d = n \<Longrightarrow> \<exists>j\<le>n. fst (fetchWithRetry_from f n i) = settle (f j)"
proof (induction d arbitrary: i)
  case 0
  then show ?case by (auto simp: from_last)
next
  case (Suc d)
  show ?case
  proof (cases "retryable (f i)")
    case True
    have "i < n" using Suc.prems by simp
    then have "fst (fetchWithRetry_from f n i) = fst (fetchWithRetry_from f n (Suc i))"
      using True by (simp add: from_retry)
    then show ?thesis using Suc.IH[of "Suc i"] Suc.prems by simp
  next
    case False
    have "i \<le> n" using Suc.prems by simp
    then have "fst (fetchWithRetry_from f n i) = settle (f i)"
      using False by (simp add: from_done)
    then show ?thesis using \<open>i \<le> n\<close> by blast
  qed
qed

lemma fetchWithRetry_settles: "fst (fetchWithRetry f n) \<noteq> No_return"
proof -
  from from_result_aux[of 0 n n f] obtain j where "fst (fetchWithRetry f n) = settle (f j)"
    by (auto simp: fetchWithRetry_def)
  then show ?thesis by (simp add: settle_def split: attempt.splits)
qed

lemma replay_500_500_200:
  "fetchWithRetry (replay [500, 500, 200]) 2 =
     (Returned (bare 200),
      [Upstream_fetch 0, Sleep 500, Upstream_fetch 1, Sleep 1000, Upstream_fetch 2])"
  by (simp add: fetchWithRetry_def fetchWithRetry_from.simps ok_def bare_def replay_def
      RETRY_DELAY_MS_def)

section \<open>Claim C2: which responses end the retry loop at once\<close>

text \<open>
  What the loop does for a response with a status from 200 to 299: it returns it at once,
  at every attempt index \<open>i \<le> retries\<close> and for every retry budget, with that single
  attempt in the trace and no delay.
\<close>

lemma fetchWithRetry_2xx_at_once:
  fixes upstream :: "nat \<Rightarrow> attempt"
  assumes "i \<le> retries" "upstream i = Responded r" "200 \<le> status r" "status r \<le> 299"
  shows "fetchWithRetry_from upstream retries i = (Returned r, [Upstream_fetch i])"
proof -
  have "\<not> retryable (upstream i)" using assms by (simp add: retryable_def ok_def)
  then show ?thesis using assms(1,2) from_done[of i retries upstream] by (simp add: settle_def)
qed

text \<open>
  Claim C2: every upstream response with a status from 200 to 399 is returned at once, with
  no further attempt and no retry delay. The code does not do this for a status from 300 to
  399. Its comments say that success and client errors are not retried and that server
  errors (5xx) and other failures are, but the test is \<^verbatim>\<open>response.ok\<close>, the range 200
  to 299, so a 3xx answer falls into the retry branch. The handler forwards
  \<^verbatim>\<open>if-none-match\<close> and \<^verbatim>\<open>if-modified-since\<close>, so a 304 is an ordinary answer of
  the upstream: with \<open>retries = 2\<close> the 304 of the first attempt is followed by a delay of
  500 ms, a second attempt, a delay of 1000 ms and a third attempt, whose 304 is returned.
\<close>

theorem fetchWithRetry_304_retried:
  "always_304 0 = Responded (bare 304)
   \<and> 300 \<le> status (bare 304) \<and> status (bare 304) \<le> 399
   \<and> fetchWithRetry always_304 2 =
       (Returned (bare 304),
        [Upstream_fetch 0, Sleep 500, Upstream_fetch 1, Sleep 1000, Upstream_fetch 2])
   \<and> fetchWithRetry always_304 2 \<noteq> (Returned (bare 304), [Upstream_fetch 0])"
  by (simp add: fetchWithRetry_def fetchWithRetry_from.simps ok_def bare_def always_304_def
      RETRY_DELAY_MS_def)

section \<open>Claim C5: bounded attempts and linear backoff\<close>

lemma le2: "j \<le> (2::nat) \<longleftrightarrow> j = 0 \<or> j = 1 \<or> j = 2"
  by auto

text \<open>
  Claim C5: \<open>fetchWithRetry\<close> makes at most \<open>retries + 1\<close> attempts and then returns a
  response or throws, and the delay before the \<open>k\<close>-th retry (counted from 1) is
  \<open>RETRY_DELAY_MS * k\<close>. With the responses
  500, 500, 200 and \<open>retries = 2\<close> it returns the 200 after exactly two delays (500 ms and
  1000 ms). When every attempt answers 500 it returns the last 500 response and does not
  throw. A 404 on the first attempt is returned at once with no retry. When every attempt
  is rejected (a timeout or a transport error) it throws the last error after
  \<open>retries + 1\<close> attempts.
\<close>

theorem fetchWithRetry_bounded_linear_backoff:
  fixes upstream u500 u404 uerr :: "nat \<Rightarrow> attempt"
  shows
    "attempts (snd (fetchWithRetry upstream retries)) \<le> retries + 1
     \<and> fst (fetchWithRetry upstream retries) \<noteq> No_return
     \<and> delays (snd (fetchWithRetry upstream retries)) =
         map (\<lambda>k. RETRY_DELAY_MS * k) [1..<attempts (snd (fetchWithRetry upstream retries))]
     \<and> fetchWithRetry (replay [500, 500, 200]) 2 =
         (Returned (bare 200),
          [Upstream_fetch 0, Sleep 500, Upstream_fetch 1, Sleep 1000, Upstream_fetch 2])
     \<and> ((\<forall>j\<le>n. \<exists>r. u500 j = Responded r \<and> status r = 500) \<longrightarrow>
          (\<exists>r. u500 n = Responded r \<and> status r = 500 \<and> fst (fetchWithRetry u500 n) = Returned r)
          \<and> attempts (snd (fetchWithRetry u500 n)) = n + 1)
     \<and> (u404 0 = Responded r4 \<and> status r4 = 404 \<longrightarrow>
          fetchWithRetry u404 m = (Returned r4, [Upstream_fetch 0]))
     \<and> ((\<forall>j\<le>l. uerr j = Rejected (e j)) \<longrightarrow>
          fst (fetchWithRetry uerr l) = Threw (e l)
          \<and> attempts (snd (fetchWithRetry uerr l)) = l + 1)"
proof (intro conjI impI)
  show "attempts (snd (fetchWithRetry upstream retries)) \<le> retries + 1"
    by (rule attempts_bound)
  show "fst (fetchWithRetry upstream retries) \<noteq> No_return"
    by (rule fetchWithRetry_settles)
  show "delays (snd (fetchWithRetry upstream retries)) =
         map (\<lambda>k. RETRY_DELAY_MS * k) [1..<attempts (snd (fetchWithRetry upstream retries))]"
    by (rule delays_linear)
  show "fetchWithRetry (replay [500, 500, 200]) 2 =
         (Returned (bare 200),
          [Upstream_fetch 0, Sleep 500, Upstream_fetch 1, Sleep 1000, Upstream_fetch 2])"
    by (rule replay_500_500_200)
next
  assume a: "\<forall>j\<le>n. \<exists>r. u500 j = Responded r \<and> status r = 500"
  then have "\<forall>j\<le>n. retryable (u500 j)" by (auto simp: retryable_def ok_def)
  then have eq: "fetchWithRetry u500 n = (settle (u500 n), retry_trace 0 n)" by (rule all_retryable)
  from a obtain r where r: "u500 n = Responded r" "status r = 500" by auto
  show "\<exists>r. u500 n = Responded r \<and> status r = 500 \<and> fst (fetchWithRetry u500 n) = Returned r"
    using r eq by (simp add: settle_def)
  show "attempts (snd (fetchWithRetry u500 n)) = n + 1"
    using eq by (simp add: attempts_retry_trace)
next
  assume a: "u404 0 = Responded r4 \<and> status r4 = 404"
  then have "\<not> retryable (u404 0)" by (simp add: retryable_def)
  then show "fetchWithRetry u404 m = (Returned r4, [Upstream_fetch 0])"
    using a from_done[of 0 m u404] by (simp add: fetchWithRetry_def settle_def)
next
  assume a: "\<forall>j\<le>l. uerr j = Rejected (e j)"
  then have "\<forall>j\<le>l. retryable (uerr j)" by (simp add: retryable_def)
  then have eq: "fetchWithRetry uerr l = (settle (uerr l), retry_trace 0 l)" by (rule all_retryable)
  show "fst (fetchWithRetry uerr l) = Threw (e l)" using eq a by (simp add: settle_def)
  show "attempts (snd (fetchWithRetry uerr l)) = l + 1" using eq by (simp add: attempts_retry_trace)
qed

theorem fetchWithRetry_bounded_linear_backoff_witness:
  "replay [500, 500, 500] 0 = Responded (bare 500)
   \<and> replay [500, 500, 500] 1 = Responded (bare 500)
   \<and> replay [500, 500, 500] 2 = Responded (bare 500)
   \<and> status (bare 500) = 500
   \<and> fst (fetchWithRetry (replay [500, 500, 500]) 2) = Returned (bare 500)
   \<and> attempts (snd (fetchWithRetry (replay [500, 500, 500]) 2)) = 3
   \<and> replay [404] 0 = Responded (bare 404) \<and> status (bare 404) = 404
   \<and> fetchWithRetry (replay [404]) 2 = (Returned (bare 404), [Upstream_fetch 0])
   \<and> always_timeout 0 = Rejected Timeout_abort
   \<and> always_timeout 1 = Rejected Timeout_abort
   \<and> always_timeout 2 = Rejected Timeout_abort
   \<and> fst (fetchWithRetry always_timeout 2) = Threw Timeout_abort
   \<and> attempts (snd (fetchWithRetry always_timeout 2)) = 3"
proof -
  have h500: "\<forall>j\<le>2. \<exists>r. replay [500, 500, 500] j = Responded r \<and> status r = 500"
    by (simp add: le2 replay_def bare_def)
  have h404: "replay [404] 0 = Responded (bare 404) \<and> status (bare 404) = 404"
    by (simp add: replay_def bare_def)
  have herr: "\<forall>j\<le>2. always_timeout j = Rejected ((\<lambda>j. Timeout_abort) j)"
    by (simp add: always_timeout_def)
  note t = fetchWithRetry_bounded_linear_backoff
      [of always_timeout 2 2 "replay [500, 500, 500]" "replay [404]" "bare 404" 2 2 always_timeout
          "\<lambda>j. Timeout_abort"]
  from t h500 h404 herr show ?thesis
    by (auto simp: replay_def bare_def always_timeout_def)
qed

section \<open>Claim C6: the cache strategy\<close>

lemmas strategy_defs = getCacheStrategy_def is_dynamic_path_def is_versioned_path_def
  rx_version_segment_def rx_tags_def rx_release_download_def is_digit_def
  dynamic_strategy_def versioned_strategy_def default_strategy_def

lemma strategy_versioned_example:
  "getCacheStrategy ''/pkg/releases/download/v1.2.3/file.tar.gz'' =
     \<lparr>edgeTTL = 2592000, browserTTL = 86400, useETag = False, description = ''versioned''\<rparr>"
  by (simp add: strategy_defs)

lemma strategy_dynamic_example:
  "getCacheStrategy ''/pkg/raw/main/file'' =
     \<lparr>edgeTTL = 3600, browserTTL = 300, useETag = True, description = ''dynamic''\<rparr>"
  by (simp add: strategy_defs)

lemma strategy_default_example:
  "getCacheStrategy ''/pkg/blob/x'' =
     \<lparr>edgeTTL = 86400, browserTTL = 3600, useETag = True, description = ''default''\<rparr>"
  by (simp add: strategy_defs)

lemma versioned_path_under_main:
  "is_dynamic_path ''/a/v1.0/main/x'' \<and> is_versioned_path ''/a/v1.0/main/x''"
  by (simp add: strategy_defs)

lemma release_path_not_dynamic:
  "\<not> is_dynamic_path ''/pkg/releases/download/v1.2.3/file.tar.gz''
   \<and> is_versioned_path ''/pkg/releases/download/v1.2.3/file.tar.gz''"
  by (simp add: strategy_defs)

lemma blob_path_neither:
  "\<not> is_dynamic_path ''/pkg/blob/x'' \<and> \<not> is_versioned_path ''/pkg/blob/x''"
  by (simp add: strategy_defs)

text \<open>
  Claim C6: \<open>getCacheStrategy\<close> is a total function of the path alone (it is a HOL function
  of one argument, so equal paths give equal policies). Its rules are tried in order and
  the first match wins: a path with one of the dynamic markers gets the dynamic policy
  whether or not it also looks versioned, a path without them that matches one of the three
  version patterns gets the versioned policy, and every other path gets the default policy.
  The three paths of the claim get the three policies with the stated TTLs and flags.
\<close>

theorem getCacheStrategy_first_match_wins:
  "(is_dynamic_path p1 \<longrightarrow> getCacheStrategy p1 = dynamic_strategy)
   \<and> (\<not> is_dynamic_path p2 \<and> is_versioned_path p2 \<longrightarrow> getCacheStrategy p2 = versioned_strategy)
   \<and> (\<not> is_dynamic_path p3 \<and> \<not> is_versioned_path p3 \<longrightarrow>
        getCacheStrategy p3 = default_strategy)
   \<and> getCacheStrategy ''/pkg/releases/download/v1.2.3/file.tar.gz'' =
       \<lparr>edgeTTL = 2592000, browserTTL = 86400, useETag = False, description = ''versioned''\<rparr>
   \<and> getCacheStrategy ''/pkg/raw/main/file'' =
       \<lparr>edgeTTL = 3600, browserTTL = 300, useETag = True, description = ''dynamic''\<rparr>
   \<and> getCacheStrategy ''/pkg/blob/x'' =
       \<lparr>edgeTTL = 86400, browserTTL = 3600, useETag = True, description = ''default''\<rparr>"
  using strategy_versioned_example strategy_dynamic_example strategy_default_example
  by (simp add: getCacheStrategy_def)

theorem getCacheStrategy_first_match_wins_witness:
  "is_dynamic_path ''/a/v1.0/main/x'' \<and> is_versioned_path ''/a/v1.0/main/x''
   \<and> getCacheStrategy ''/a/v1.0/main/x'' =
       \<lparr>edgeTTL = 3600, browserTTL = 300, useETag = True, description = ''dynamic''\<rparr>
   \<and> \<not> is_dynamic_path ''/pkg/releases/download/v1.2.3/file.tar.gz''
   \<and> is_versioned_path ''/pkg/releases/download/v1.2.3/file.tar.gz''
   \<and> getCacheStrategy ''/pkg/releases/download/v1.2.3/file.tar.gz'' =
       \<lparr>edgeTTL = 2592000, browserTTL = 86400, useETag = False, description = ''versioned''\<rparr>
   \<and> \<not> is_dynamic_path ''/pkg/blob/x'' \<and> \<not> is_versioned_path ''/pkg/blob/x''
   \<and> getCacheStrategy ''/pkg/blob/x'' =
       \<lparr>edgeTTL = 86400, browserTTL = 3600, useETag = True, description = ''default''\<rparr>"
  using getCacheStrategy_first_match_wins
          [of "''/a/v1.0/main/x''" "''/pkg/releases/download/v1.2.3/file.tar.gz''" "''/pkg/blob/x''"]
        versioned_path_under_main release_path_not_dynamic blob_path_neither
  by (simp add: dynamic_strategy_def versioned_strategy_def default_strategy_def)

section \<open>Claim C8: the normalized ETag\<close>





section \<open>The query serializer is injective\<close>

lemma hex_digit_inj: "a < 16 \<Longrightarrow> b < 16 \<Longrightarrow> hex_digit a = hex_digit b \<Longrightarrow> a = b"
proof -
  assume a: "a < 16" and b: "b < 16" and e: "hex_digit a = hex_digit b"
  have d: "distinct ''0123456789ABCDEF''" by simp
  have l: "length ''0123456789ABCDEF'' = 16" by simp
  from e a b have "''0123456789ABCDEF'' ! a = ''0123456789ABCDEF'' ! b"
    by (simp add: hex_digit_def)
  with d l a b show "a = b" by (simp only: nth_eq_iff_index_eq)
qed

lemma hex_digit_in: "hex_digit d \<in> set ''0123456789ABCDEF''"
proof -
  have "d mod 16 < length ''0123456789ABCDEF''" by simp
  then show ?thesis unfolding hex_digit_def by (rule nth_mem)
qed

lemma hex_digit_not_sep:
  "hex_digit d \<noteq> CHR ''='' \<and> hex_digit d \<noteq> CHR ''&''
   \<and> CHR ''='' \<noteq> hex_digit d \<and> CHR ''&'' \<noteq> hex_digit d"
  using hex_digit_in[of d] by auto

lemma div16_lt: "(a::nat) < 256 \<Longrightarrow> a div 16 < 16"
  using less_mult_imp_div_less[of a 16 16] by simp

lemma lead_byte_lt: "(a::nat) < 256 \<Longrightarrow> 192 + a div 64 < 256"
  using less_mult_imp_div_less[of a 4 64] by simp

lemma cont_byte_lt: "128 + (a::nat) mod 64 < 256"
proof -
  have "a mod 64 < 64" by simp
  then show ?thesis by linarith
qed

lemma lead_byte_high: "(b::nat) < 128 \<Longrightarrow> b div 16 \<noteq> (192 + a div 64) div 16"
proof -
  assume "b < 128"
  then have "b div 16 < 8" using less_mult_imp_div_less[of b 8 16] by simp
  moreover have "192 div 16 \<le> (192 + a div 64) div 16" by (rule div_le_mono) simp
  ultimately show ?thesis by simp
qed

lemma byte_eq:
  assumes "a < 256" "b < 256" "hex_digit (a div 16) = hex_digit (b div 16)"
    "hex_digit (a mod 16) = hex_digit (b mod 16)"
  shows "a = (b::nat)"
proof -
  have "a div 16 = b div 16" using assms(1-3) by (intro hex_digit_inj) auto
  moreover have "a mod 16 = b mod 16" using assms(4) by (intro hex_digit_inj) auto
  ultimately show ?thesis by (metis div_mult_mod_eq)
qed

lemma utf8_bytes_cases:
  "(of_char c < (128::nat) \<and> utf8_bytes c = [of_char c])
   \<or> (128 \<le> (of_char c :: nat) \<and> utf8_bytes c = [192 + of_char c div 64, 128 + of_char c mod 64])"
  by (simp add: utf8_bytes_def Let_def)

lemma of_char_lt: "(of_char (c::char) :: nat) < 256"
proof -
  have "(of_char c :: nat) mod 256 < 256" by simp
  then show ?thesis by (simp only: of_char_mod_256)
qed

lemma safe_not_special:
  "urlencoded_safe c \<Longrightarrow> c \<noteq> CHR ''%'' \<and> c \<noteq> CHR ''+'' \<and> c \<noteq> CHR ''='' \<and> c \<noteq> CHR ''&'' \<and> c \<noteq> CHR '' ''"
  by (auto simp: urlencoded_safe_def)

text \<open>The three shapes of an encoded character.\<close>

lemma urlencode_char_cases:
  "(c = CHR '' '' \<and> urlencode_char c = ''+'')
   \<or> (urlencoded_safe c \<and> urlencode_char c = [c])
   \<or> (c \<noteq> CHR '' '' \<and> \<not> urlencoded_safe c \<and> of_char c < (128::nat)
        \<and> urlencode_char c = percent_byte (of_char c))
   \<or> (c \<noteq> CHR '' '' \<and> \<not> urlencoded_safe c \<and> 128 \<le> (of_char c :: nat)
        \<and> urlencode_char c = percent_byte (192 + of_char c div 64) @ percent_byte (128 + of_char c mod 64))"
  using utf8_bytes_cases[of c] safe_not_special[of c]
  by (auto simp: urlencode_char_def)

lemma urlencode_char_nonempty: "urlencode_char c \<noteq> []"
  using urlencode_char_cases[of c] by (auto simp: percent_byte_def)

lemma urlencode_char_no_sep:
  "CHR ''='' \<notin> set (urlencode_char c) \<and> CHR ''&'' \<notin> set (urlencode_char c)"
  using urlencode_char_cases[of c] safe_not_special[of c]
  by (auto simp: percent_byte_def hex_digit_not_sep)

lemma urlencode_no_sep: "CHR ''='' \<notin> set (urlencode s) \<and> CHR ''&'' \<notin> set (urlencode s)"
  using urlencode_char_no_sep by (induction s) (auto simp: urlencode_def)

lemma two_byte_eq:
  assumes "128 \<le> (a::nat)" "a < 256" "128 \<le> b" "b < 256"
    "192 + a div 64 = 192 + b div 64" "128 + a mod 64 = 128 + b mod 64"
  shows "a = b"
  using assms by (metis add_left_cancel div_mult_mod_eq)

lemma urlencode_char_prefix_code:
  assumes "urlencode_char c @ X = urlencode_char d @ Y"
  shows "c = d \<and> X = Y"
proof -
  let ?n = "of_char c :: nat" and ?m = "of_char d :: nat"
  have n: "?n < 256" and m: "?m < 256" by (rule of_char_lt)+
  consider (sp) "c = CHR '' ''" "urlencode_char c = ''+''"
    | (safe) "urlencoded_safe c" "urlencode_char c = [c]"
    | (one) "\<not> urlencoded_safe c" "c \<noteq> CHR '' ''" "?n < 128" "urlencode_char c = percent_byte ?n"
    | (two) "\<not> urlencoded_safe c" "c \<noteq> CHR '' ''" "128 \<le> ?n"
        "urlencode_char c = percent_byte (192 + ?n div 64) @ percent_byte (128 + ?n mod 64)"
    using urlencode_char_cases[of c] by blast
  then show ?thesis
  proof cases
    case sp
    then show ?thesis
      using assms urlencode_char_cases[of d] safe_not_special[of d]
      by (auto simp: percent_byte_def)
  next
    case safe
    then show ?thesis
      using assms urlencode_char_cases[of d] safe_not_special[of d] safe_not_special[of c]
      by (auto simp: percent_byte_def)
  next
    case one
    consider (sp') "d = CHR '' ''" "urlencode_char d = ''+''"
      | (safe') "urlencoded_safe d" "urlencode_char d = [d]"
      | (one') "?m < 128" "urlencode_char d = percent_byte ?m"
      | (two') "128 \<le> ?m"
        "urlencode_char d = percent_byte (192 + ?m div 64) @ percent_byte (128 + ?m mod 64)"
      using urlencode_char_cases[of d] by blast
    then show ?thesis
    proof cases
      case sp' then show ?thesis using assms one by (simp add: percent_byte_def)
    next
      case safe' then show ?thesis using assms one safe_not_special[of d] by (simp add: percent_byte_def)
    next
      case one'
      from assms one one' have h: "hex_digit (?n div 16) = hex_digit (?m div 16)"
        "hex_digit (?n mod 16) = hex_digit (?m mod 16)" "X = Y"
        by (simp_all add: percent_byte_def)
      from byte_eq[OF n m h(1,2)] h(3) show ?thesis by simp
    next
      case two'
      from assms one two' have h: "hex_digit (?n div 16) = hex_digit ((192 + ?m div 64) div 16)"
        by (simp add: percent_byte_def)
      have "?n div 16 < 16" using n by (rule div16_lt)
      moreover have "(192 + ?m div 64) div 16 < 16" using m by (intro div16_lt lead_byte_lt)
      ultimately have "?n div 16 = (192 + ?m div 64) div 16" using h by (intro hex_digit_inj)
      then show ?thesis using lead_byte_high[OF one(3), of ?m] by simp
    qed
  next
    case two
    consider (sp') "d = CHR '' ''" "urlencode_char d = ''+''"
      | (safe') "urlencoded_safe d" "urlencode_char d = [d]"
      | (one') "?m < 128" "urlencode_char d = percent_byte ?m"
      | (two') "128 \<le> ?m"
        "urlencode_char d = percent_byte (192 + ?m div 64) @ percent_byte (128 + ?m mod 64)"
      using urlencode_char_cases[of d] by blast
    then show ?thesis
    proof cases
      case sp' then show ?thesis using assms two by (simp add: percent_byte_def)
    next
      case safe' then show ?thesis using assms two safe_not_special[of d] by (simp add: percent_byte_def)
    next
      case one'
      from assms two one' have h: "hex_digit ((192 + ?n div 64) div 16) = hex_digit (?m div 16)"
        by (simp add: percent_byte_def)
      have "?m div 16 < 16" using m by (rule div16_lt)
      moreover have "(192 + ?n div 64) div 16 < 16" using n by (intro div16_lt lead_byte_lt)
      ultimately have "(192 + ?n div 64) div 16 = ?m div 16" using h by (intro hex_digit_inj)
      then show ?thesis using lead_byte_high[OF one'(1), of ?n] by simp
    next
      case two'
      let ?a = "192 + ?n div 64" and ?b = "192 + ?m div 64"
      let ?a' = "128 + ?n mod 64" and ?b' = "128 + ?m mod 64"
      from assms two two' have h:
        "hex_digit (?a div 16) = hex_digit (?b div 16)" "hex_digit (?a mod 16) = hex_digit (?b mod 16)"
        "hex_digit (?a' div 16) = hex_digit (?b' div 16)" "hex_digit (?a' mod 16) = hex_digit (?b' mod 16)"
        "X = Y"
        by (simp_all add: percent_byte_def)
      have la: "?a < 256" using n by (rule lead_byte_lt)
      have lb: "?b < 256" using m by (rule lead_byte_lt)
      have la': "?a' < 256" by (rule cont_byte_lt)
      have lb': "?b' < 256" by (rule cont_byte_lt)
      have "?a = ?b" using la lb h(1) h(2) by (rule byte_eq)
      moreover have "?a' = ?b'" using la' lb' h(3) h(4) by (rule byte_eq)
      ultimately have "?n = ?m" using two_byte_eq[OF two(3) n two'(1) m] by simp
      then show ?thesis using h(5) by simp
    qed
  qed
qed

lemma urlencode_Cons: "urlencode (c # cs) = urlencode_char c @ urlencode cs"
  by (simp add: urlencode_def)

lemma urlencode_Nil: "urlencode [] = []"
  by (simp add: urlencode_def)

lemma sep_not_encoded: "is_sep X \<Longrightarrow> X \<noteq> urlencode_char d @ Y"
proof
  assume s: "is_sep X" and e: "X = urlencode_char d @ Y"
  from urlencode_char_nonempty[of d] obtain a as where a: "urlencode_char d = a # as"
    by (cases "urlencode_char d") auto
  then have "a \<in> set (urlencode_char d)" by simp
  then have "a \<noteq> CHR ''='' \<and> a \<noteq> CHR ''&''" using urlencode_char_no_sep[of d] by auto
  then show False using s e a by (auto simp: is_sep_def split: list.splits)
qed

lemma urlencode_token:
  "urlencode s @ X = urlencode t @ Y \<Longrightarrow> is_sep X \<Longrightarrow> is_sep Y \<Longrightarrow> s = t \<and> X = Y"
proof (induction s arbitrary: t)
  case Nil
  show ?case
  proof (cases t)
    case Nil then show ?thesis using Nil.prems by (simp add: urlencode_Nil)
  next
    case (Cons d ds)
    then have "X = urlencode_char d @ (urlencode ds @ Y)"
      using Nil.prems(1) by (simp add: urlencode_Nil urlencode_Cons)
    then show ?thesis using sep_not_encoded[OF Nil.prems(2)] by blast
  qed
next
  case (Cons c cs)
  show ?case
  proof (cases t)
    case Nil
    then have "Y = urlencode_char c @ (urlencode cs @ X)"
      using Cons.prems(1) by (simp add: urlencode_Nil urlencode_Cons)
    then show ?thesis using sep_not_encoded[OF Cons.prems(3)] by blast
  next
    case (Cons d ds)
    then have "urlencode_char c @ (urlencode cs @ X) = urlencode_char d @ (urlencode ds @ Y)"
      using Cons.prems(1) by (simp add: urlencode_Cons)
    then have "c = d \<and> urlencode cs @ X = urlencode ds @ Y" by (rule urlencode_char_prefix_code)
    then show ?thesis using Cons.IH[of ds] Cons.prems(2,3) Cons by simp
  qed
qed

lemma urlencode_inj: "urlencode s = urlencode t \<Longrightarrow> s = t"
  using urlencode_token[of s "''=''" t "''=''"] by (simp add: is_sep_def)

lemma serialize_ser_amp: "ps \<noteq> [] \<Longrightarrow> urlencoded_serialize ps @ ''&'' = ser_amp ps"
  by (induction ps rule: urlencoded_serialize.induct) simp_all

lemma serialize_empty_iff: "urlencoded_serialize ps = [] \<longleftrightarrow> ps = []"
  by (cases ps rule: urlencoded_serialize.cases) auto

lemma ser_amp_Cons_nonempty: "ser_amp (p # ps) \<noteq> []"
  by (cases p) simp

lemma ser_amp_inj: "ser_amp ps = ser_amp qs \<Longrightarrow> ps = qs"
proof (induction ps arbitrary: qs)
  case Nil
  then show ?case using ser_amp_Cons_nonempty by (cases qs) (simp, metis ser_amp.simps(1))
next
  case (Cons p ps')
  obtain n v where p: "p = (n, v)" by (cases p)
  show ?case
  proof (cases qs)
    case Nil
    then show ?thesis using Cons.prems ser_amp_Cons_nonempty[of p ps'] by simp
  next
    case (Cons q qs')
    obtain m w where q: "q = (m, w)" by (cases q)
    have e: "urlencode n @ (''='' @ (urlencode v @ (''&'' @ ser_amp ps')))
           = urlencode m @ (''='' @ (urlencode w @ (''&'' @ ser_amp qs')))"
      using Cons.prems unfolding Cons p q ser_amp.simps .
    have "n = m \<and> ''='' @ (urlencode v @ (''&'' @ ser_amp ps')) = ''='' @ (urlencode w @ (''&'' @ ser_amp qs'))"
      using e by (rule urlencode_token) (simp_all add: is_sep_def)
    then have nm: "n = m" and e2: "urlencode v @ (''&'' @ ser_amp ps') = urlencode w @ (''&'' @ ser_amp qs')"
      by simp_all
    have "v = w \<and> ''&'' @ ser_amp ps' = ''&'' @ ser_amp qs'"
      using e2 by (rule urlencode_token) (simp_all add: is_sep_def)
    then have vw: "v = w" and e3: "ser_amp ps' = ser_amp qs'" by simp_all
    from Cons.IH[OF e3] nm vw p q Cons show ?thesis by simp
  qed
qed

lemma serialize_inj: "urlencoded_serialize ps = urlencoded_serialize qs \<Longrightarrow> ps = qs"
proof (cases "ps = [] \<or> qs = []")
  case True
  assume "urlencoded_serialize ps = urlencoded_serialize qs"
  then show ?thesis using True by (metis serialize_empty_iff)
next
  case False
  assume "urlencoded_serialize ps = urlencoded_serialize qs"
  then have "ser_amp ps = ser_amp qs"
    using False serialize_ser_amp[of ps] serialize_ser_amp[of qs] by simp
  then show ?thesis by (rule ser_amp_inj)
qed

section \<open>The shape of a cache key\<close>

lemma params_set_nonempty: "params_set n v ps \<noteq> []"
  by (cases ps) (auto split: if_splits)

lemma filter_params_set_same: "filter (\<lambda>p. fst p = n) (params_set n v ps) = [(n, v)]"
  by (induction ps) (auto simp: filter_empty_conv)

lemma filter_params_set_other:
  assumes "\<And>k w. P (k, w) \<Longrightarrow> k \<noteq> n"
  shows "filter P (params_set n v ps) = filter P ps"
proof (induction ps)
  case Nil
  have "\<not> P (n, v)" using assms by blast
  then show ?case by simp
next
  case (Cons a ps)
  obtain k w where a: "a = (k, w)" by (cases a)
  have np: "\<not> P (n, v)" using assms by blast
  have A: "\<forall>q. P q \<longrightarrow> fst q \<noteq> n"
  proof (intro allI impI)
    fix q assume "P q"
    then have "P (fst q, snd q)" by simp
    then show "fst q \<noteq> n" by (rule assms)
  qed
  have "filter P (filter (\<lambda>p. fst p \<noteq> n) ps) = filter (\<lambda>p. fst p \<noteq> n \<and> P p) ps"
    by simp
  also have "\<dots> = filter P ps"
    using A by (intro filter_cong) auto
  finally show ?case using Cons a np A by auto
qed

lemma filter_name_params_set:
  "m \<noteq> n \<Longrightarrow> filter (\<lambda>p. fst p = m) (params_set n v ps) = filter (\<lambda>p. fst p = m) ps"
  by (rule filter_params_set_other) simp

lemma filter_rest_params_set:
  "n = a \<or> n = b \<Longrightarrow>
   filter (\<lambda>p. fst p \<noteq> a \<and> fst p \<noteq> b) (params_set n v ps)
     = filter (\<lambda>p. fst p \<noteq> a \<and> fst p \<noteq> b) ps"
  by (rule filter_params_set_other) auto

lemma searchParams_set_simps:
  "origin (searchParams_set n v u) = origin u"
  "pathname (searchParams_set n v u) = pathname u"
  "hash (searchParams_set n v u) = hash u"
  "searchParams (searchParams_set n v u) = params_set n v (searchParams u)"
  "query (searchParams_set n v u) = Some (urlencoded_serialize (params_set n v (searchParams u)))"
  using params_set_nonempty[of n v "searchParams u"]
  by (simp_all add: searchParams_set_def Let_def serialize_empty_iff)

lemma cacheUrl_simps:
  "origin (cacheUrl now u e v) = origin u"
  "pathname (cacheUrl now u e v) = pathname u"
  "hash (cacheUrl now u e v) = hash u"
  "searchParams (cacheUrl now u e v) = key_params now (searchParams u) e v"
  "query (cacheUrl now u e v) = Some (urlencoded_serialize (key_params now (searchParams u) e v))"
  by (simp_all add: cacheUrl_def key_params_def encoding_tag_def Let_def searchParams_set_simps)

lemma key_shape:
  "getOptimalCacheKey now u e v =
     origin u @ pathname u @ ''?'' @ urlencoded_serialize (key_params now (searchParams u) e v) @ hash u"
  by (simp add: getOptimalCacheKey_def href_def cacheUrl_simps)

lemma key_eq_iff:
  assumes "origin u = origin u'" "pathname u = pathname u'" "hash u = hash u'"
  shows "getOptimalCacheKey now u e v = getOptimalCacheKey now' u' e' v'
     \<longleftrightarrow> key_params now (searchParams u) e v = key_params now' (searchParams u') e' v'"
  using assms serialize_inj by (auto simp: key_shape)

lemma key_params_filter_v:
  "filter (\<lambda>p. fst p = ''__v'') (key_params now ps e v) = [(''__v'', effective_version now v)]"
  by (simp add: key_params_def Let_def filter_params_set_same filter_name_params_set
      split: option.splits)

lemma key_params_filter_enc_none:
  "encoding_tag e = None \<Longrightarrow>
   filter (\<lambda>p. fst p = ''__enc'') (key_params now ps e v) = filter (\<lambda>p. fst p = ''__enc'') ps"
  by (simp add: key_params_def Let_def filter_name_params_set)

lemma key_params_filter_enc_some:
  "encoding_tag e = Some t \<Longrightarrow>
   filter (\<lambda>p. fst p = ''__enc'') (key_params now ps e v) = [(''__enc'', t)]"
  by (simp add: key_params_def Let_def filter_params_set_same)

lemma key_params_filter_rest:
  "filter (\<lambda>p. fst p \<noteq> ''__v'' \<and> fst p \<noteq> ''__enc'') (key_params now ps e v)
     = filter (\<lambda>p. fst p \<noteq> ''__v'' \<and> fst p \<noteq> ''__enc'') ps"
  by (simp add: key_params_def Let_def filter_rest_params_set split: option.splits)

lemma encoding_tag_None_iff:
  "encoding_tag e = None \<longleftrightarrow> \<not> str_includes e ''br'' \<and> \<not> str_includes e ''gzip''"
  by (cases e) (auto simp: encoding_tag_def)

lemma example_stamp: "getCacheVersion example_day = ''20261101''"
  by (simp add: getCacheVersion_def example_day_def show_nat.simps padStart2_def digit_char_def)

lemma key_version_iff:
  "getOptimalCacheKey now u e v = getOptimalCacheKey now u e v'
     \<longleftrightarrow> effective_version now v = effective_version now v'"
proof -
  let ?a = "key_params now (searchParams u) e v" and ?b = "key_params now (searchParams u) e v'"
  have "(?a = ?b) \<longleftrightarrow> effective_version now v = effective_version now v'"
  proof
    assume "?a = ?b"
    then have "filter (\<lambda>p. fst p = ''__v'') ?a = filter (\<lambda>p. fst p = ''__v'') ?b" by simp
    then show "effective_version now v = effective_version now v'"
      by (simp only: key_params_filter_v) simp
  next
    assume "effective_version now v = effective_version now v'"
    then show "?a = ?b" by (simp add: key_params_def)
  qed
  then show ?thesis by (simp add: key_eq_iff)
qed

lemmas key_eval = getOptimalCacheKey_def cacheUrl_def href_def search_def searchParams_set_def
  effective_version_def Let_def urlencode_def urlencode_char_def urlencoded_safe_def
  example_url_def example_stamp initialCacheKey_def accept_encoding_of_def example_request_def
  example_env_def

lemma example_initial_key:
  "initialCacheKey (env_today example_env) (example_request ''GET'' ''/user/repo/x'' [])
     = ''https://gh.example.com/user/repo/x?__v=20261101''"
  by (simp add: key_eval)

subsection \<open>Keys of well-formed URLs\<close>

lemma hex_digit_not_hash: "hex_digit d \<noteq> CHR ''#'' \<and> CHR ''#'' \<noteq> hex_digit d"
  using hex_digit_in[of d] by auto

lemma urlencode_char_no_hash: "CHR ''#'' \<notin> set (urlencode_char c)"
  using urlencode_char_cases[of c]
  by (auto simp: percent_byte_def hex_digit_not_hash urlencoded_safe_def)

lemma urlencode_no_hash: "CHR ''#'' \<notin> set (urlencode s)"
  using urlencode_char_no_hash by (induction s) (auto simp: urlencode_def)

lemma serialize_no_hash: "CHR ''#'' \<notin> set (urlencoded_serialize ps)"
  by (induction ps rule: urlencoded_serialize.induct) (simp_all add: urlencode_no_hash)

lemma starts_with_Cons: "starts_with s [c] \<longleftrightarrow> (\<exists>t. s = c # t)"
  by (cases s) auto

lemma split_at:
  "c \<notin> set a \<Longrightarrow> c \<notin> set b \<Longrightarrow> a @ c # x = b @ c # y \<Longrightarrow> a = b \<and> x = y"
proof (induction a arbitrary: b)
  case Nil
  then show ?case by (cases b) auto
next
  case (Cons d a)
  then show ?case by (cases b) auto
qed

lemma query_hash_split:
  assumes "s @ h = s' @ h'" "CHR ''#'' \<notin> set s" "CHR ''#'' \<notin> set s'"
    "h = [] \<or> starts_with h ''#''" "h' = [] \<or> starts_with h' ''#''"
  shows "s = s' \<and> h = h'"
proof (cases "h = []")
  case True
  show ?thesis
  proof (cases "h' = []")
    case True
    with \<open>h = []\<close> assms(1) show ?thesis by simp
  next
    case False
    then obtain t where "h' = CHR ''#'' # t" using assms(5) by (auto simp: starts_with_Cons)
    then have "CHR ''#'' \<in> set s" using assms(1) True by simp
    then show ?thesis using assms(2) by simp
  qed
next
  case False
  then obtain t where t: "h = CHR ''#'' # t" using assms(4) by (auto simp: starts_with_Cons)
  show ?thesis
  proof (cases "h' = []")
    case True
    then have "CHR ''#'' \<in> set s'" using assms(1) t by (metis append_Nil2 in_set_conv_decomp)
    then show ?thesis using assms(3) by simp
  next
    case False
    then obtain t' where t': "h' = CHR ''#'' # t'" using assms(5) by (auto simp: starts_with_Cons)
    have "s @ CHR ''#'' # t = s' @ CHR ''#'' # t'" using assms(1) t t' by simp
    with assms(2,3) have "s = s' \<and> t = t'" by (rule split_at)
    then show ?thesis using t t' by simp
  qed
qed

lemma origin_path_split:
  assumes "o1 @ p1 = o2 @ p2"
    "length (filter (\<lambda>c. c = CHR ''/'') o1) = 2" "length (filter (\<lambda>c. c = CHR ''/'') o2) = 2"
    "starts_with p1 ''/''" "starts_with p2 ''/''"
  shows "o1 = o2 \<and> p1 = p2"
proof -
  from assms(1) obtain t where "(o1 = o2 @ t \<and> t @ p1 = p2) \<or> (o1 @ t = o2 \<and> p1 = t @ p2)"
    by (auto simp: append_eq_append_conv2)
  then consider (a) "o1 = o2 @ t" "t @ p1 = p2" | (b) "o1 @ t = o2" "p1 = t @ p2" by blast
  then show ?thesis
  proof cases
    case a
    have "t = []"
    proof (rule ccontr)
      assume "t \<noteq> []"
      then obtain c t' where ct: "t = c # t'" by (cases t) auto
      then have "c = CHR ''/''" using a(2) assms(5) by (auto simp: starts_with_Cons)
      then have "length (filter (\<lambda>c. c = CHR ''/'') o1) \<ge> 3"
        using a(1) ct assms(3) by simp
      then show False using assms(2) by simp
    qed
    then show ?thesis using a by simp
  next
    case b
    have "t = []"
    proof (rule ccontr)
      assume "t \<noteq> []"
      then obtain c t' where ct: "t = c # t'" by (cases t) auto
      then have "c = CHR ''/''" using b(2) assms(4) by (auto simp: starts_with_Cons)
      then have "length (filter (\<lambda>c. c = CHR ''/'') o2) \<ge> 3"
        using b(1) ct assms(2) by auto
      then show False using assms(3) by simp
    qed
    then show ?thesis using b by simp
  qed
qed

lemma key_eq_wf_iff:
  assumes "url_wf u1" "url_wf u2"
  shows "getOptimalCacheKey now1 u1 e1 v1 = getOptimalCacheKey now2 u2 e2 v2
     \<longleftrightarrow> origin u1 = origin u2 \<and> pathname u1 = pathname u2 \<and> hash u1 = hash u2
         \<and> searchParams (cacheUrl now1 u1 e1 v1) = searchParams (cacheUrl now2 u2 e2 v2)"
proof
  let ?s1 = "urlencoded_serialize (key_params now1 (searchParams u1) e1 v1)"
  let ?s2 = "urlencoded_serialize (key_params now2 (searchParams u2) e2 v2)"
  assume "getOptimalCacheKey now1 u1 e1 v1 = getOptimalCacheKey now2 u2 e2 v2"
  then have e: "(origin u1 @ pathname u1) @ CHR ''?'' # (?s1 @ hash u1)
      = (origin u2 @ pathname u2) @ CHR ''?'' # (?s2 @ hash u2)"
    by (simp add: key_shape)
  have n1: "CHR ''?'' \<notin> set (origin u1 @ pathname u1)" using assms(1) by (simp add: url_wf_def)
  have n2: "CHR ''?'' \<notin> set (origin u2 @ pathname u2)" using assms(2) by (simp add: url_wf_def)
  from n1 n2 e have "origin u1 @ pathname u1 = origin u2 @ pathname u2
      \<and> ?s1 @ hash u1 = ?s2 @ hash u2"
    by (rule split_at)
  then have op: "origin u1 @ pathname u1 = origin u2 @ pathname u2"
    and sh: "?s1 @ hash u1 = ?s2 @ hash u2"
    by simp_all
  have o: "origin u1 = origin u2 \<and> pathname u1 = pathname u2"
    using op assms by (intro origin_path_split) (simp_all add: url_wf_def)
  have q: "?s1 = ?s2 \<and> hash u1 = hash u2"
    using sh assms by (intro query_hash_split) (simp_all add: url_wf_def serialize_no_hash)
  then have "key_params now1 (searchParams u1) e1 v1 = key_params now2 (searchParams u2) e2 v2"
    using serialize_inj by blast
  then show "origin u1 = origin u2 \<and> pathname u1 = pathname u2 \<and> hash u1 = hash u2
         \<and> searchParams (cacheUrl now1 u1 e1 v1) = searchParams (cacheUrl now2 u2 e2 v2)"
    using o q by (simp add: cacheUrl_simps)
next
  assume "origin u1 = origin u2 \<and> pathname u1 = pathname u2 \<and> hash u1 = hash u2
         \<and> searchParams (cacheUrl now1 u1 e1 v1) = searchParams (cacheUrl now2 u2 e2 v2)"
  then show "getOptimalCacheKey now1 u1 e1 v1 = getOptimalCacheKey now2 u2 e2 v2"
    by (simp add: key_shape cacheUrl_simps)
qed

section \<open>Claim C4: what the cache key depends on\<close>

text \<open>
  Claim C4 says that changing any one of URL, Accept-Encoding and version changes the key.
  Each of the three can change and leave the key as it was: \<^verbatim>\<open>br\<close> and
  \<^verbatim>\<open>br, gzip\<close> select the same encoding tag; \<^verbatim>\<open>null\<close> and the date stamp of the
  day are the same effective version; and two URLs that differ only in the value of their
  \<^verbatim>\<open>__v\<close> parameter have it overwritten alike.
\<close>

theorem unchanged_key_counterexample:
  "''br'' \<noteq> ''br, gzip''
   \<and> getOptimalCacheKey example_day (example_url []) ''br'' None
       = getOptimalCacheKey example_day (example_url []) ''br, gzip'' None
   \<and> None \<noteq> Some ''20261101''
   \<and> getOptimalCacheKey example_day (example_url []) ''br'' None
       = getOptimalCacheKey example_day (example_url []) ''br'' (Some ''20261101'')
   \<and> example_url [(''__v'', ''1'')] \<noteq> example_url [(''__v'', ''2'')]
   \<and> getOptimalCacheKey example_day (example_url [(''__v'', ''1'')]) ''br'' None
       = getOptimalCacheKey example_day (example_url [(''__v'', ''2'')]) ''br'' None"
  by (simp add: key_eval)

text \<open>
  Claim C4, amended: the key is a function of the URL, of the encoding tag that
  Accept-Encoding selects (\<^verbatim>\<open>br\<close> when it contains \<^verbatim>\<open>br\<close>, else \<^verbatim>\<open>gzip\<close> when it
  contains \<^verbatim>\<open>gzip\<close>, else none) and of the effective version (the version when it is
  not empty, else the UTC date stamp). For a non-empty version the key does not depend on
  the day. With URL and Accept-Encoding fixed, two versions give the same key exactly when
  their effective versions are equal. With URL and version fixed, two Accept-Encoding values
  with the same tag give the same key, and two with different tags give different keys when
  the URL has no \<^verbatim>\<open>__enc\<close> parameter of its own. Two URLs give the same key exactly
  when they have the same origin, the same path, the same fragment and the same query pairs
  once \<^verbatim>\<open>__v\<close> (and \<^verbatim>\<open>__enc\<close>, when a tag is selected) has been set: so a change of
  the origin, of the path, of the fragment or of a query pair other than \<^verbatim>\<open>__v\<close> and
  \<^verbatim>\<open>__enc\<close> changes the key.
\<close>

theorem cache_key_determined_by:
  "(v \<noteq> [] \<longrightarrow>
      getOptimalCacheKey now u e (Some v) = getOptimalCacheKey now' u e (Some v))
   \<and> (getOptimalCacheKey now u e v1 = getOptimalCacheKey now u e v2
        \<longleftrightarrow> effective_version now v1 = effective_version now v2)
   \<and> (encoding_tag e1 = encoding_tag e2 \<longrightarrow>
        getOptimalCacheKey now u e1 v1 = getOptimalCacheKey now u e2 v1)
   \<and> (encoding_tag e1 \<noteq> encoding_tag e2
        \<and> filter (\<lambda>p. fst p = ''__enc'') (searchParams u) = [] \<longrightarrow>
        getOptimalCacheKey now u e1 v1 \<noteq> getOptimalCacheKey now u e2 v1)
   \<and> (origin u1 = origin u2 \<and> pathname u1 = pathname u2 \<and> hash u1 = hash u2
        \<and> filter (\<lambda>p. fst p \<noteq> ''__v'' \<and> fst p \<noteq> ''__enc'') (searchParams u1)
            \<noteq> filter (\<lambda>p. fst p \<noteq> ''__v'' \<and> fst p \<noteq> ''__enc'') (searchParams u2) \<longrightarrow>
        getOptimalCacheKey now u1 e v1 \<noteq> getOptimalCacheKey now u2 e v1)
   \<and> (url_wf ua \<and> url_wf ub \<longrightarrow>
        (getOptimalCacheKey nowa ua ea va = getOptimalCacheKey nowb ub eb vb
         \<longleftrightarrow> origin ua = origin ub \<and> pathname ua = pathname ub \<and> hash ua = hash ub
             \<and> searchParams (cacheUrl nowa ua ea va) = searchParams (cacheUrl nowb ub eb vb)))"
proof (intro conjI impI)
  assume "url_wf ua \<and> url_wf ub"
  then show "getOptimalCacheKey nowa ua ea va = getOptimalCacheKey nowb ub eb vb
         \<longleftrightarrow> origin ua = origin ub \<and> pathname ua = pathname ub \<and> hash ua = hash ub
             \<and> searchParams (cacheUrl nowa ua ea va) = searchParams (cacheUrl nowb ub eb vb)"
    by (simp add: key_eq_wf_iff)
next
  assume "v \<noteq> []"
  then show "getOptimalCacheKey now u e (Some v) = getOptimalCacheKey now' u e (Some v)"
    by (simp add: key_shape key_params_def effective_version_def)
next
  show "getOptimalCacheKey now u e v1 = getOptimalCacheKey now u e v2
        \<longleftrightarrow> effective_version now v1 = effective_version now v2"
    by (rule key_version_iff)
next
  assume "encoding_tag e1 = encoding_tag e2"
  then show "getOptimalCacheKey now u e1 v1 = getOptimalCacheKey now u e2 v1"
    by (simp add: key_shape key_params_def)
next
  let ?f = "filter (\<lambda>p. fst p = ''__enc'')"
  assume a: "encoding_tag e1 \<noteq> encoding_tag e2 \<and> ?f (searchParams u) = []"
  then have none: "?f (searchParams u) = []" by simp
  have f: "\<And>e'. ?f (key_params now (searchParams u) e' v1)
      = (case encoding_tag e' of None \<Rightarrow> [] | Some t \<Rightarrow> [(''__enc'', t)])"
    using none by (simp add: key_params_filter_enc_none key_params_filter_enc_some
        split: option.splits)
  have "?f (key_params now (searchParams u) e1 v1) \<noteq> ?f (key_params now (searchParams u) e2 v1)"
    using a by (cases "encoding_tag e1"; cases "encoding_tag e2") (simp_all add: f)
  then have "key_params now (searchParams u) e1 v1 \<noteq> key_params now (searchParams u) e2 v1"
    by metis
  then show "getOptimalCacheKey now u e1 v1 \<noteq> getOptimalCacheKey now u e2 v1"
    by (simp add: key_eq_iff)
next
  let ?f = "filter (\<lambda>p. fst p \<noteq> ''__v'' \<and> fst p \<noteq> ''__enc'')"
  assume a: "origin u1 = origin u2 \<and> pathname u1 = pathname u2 \<and> hash u1 = hash u2
        \<and> ?f (searchParams u1) \<noteq> ?f (searchParams u2)"
  then have "?f (key_params now (searchParams u1) e v1) \<noteq> ?f (key_params now (searchParams u2) e v1)"
    by (simp only: key_params_filter_rest) simp
  then have "key_params now (searchParams u1) e v1 \<noteq> key_params now (searchParams u2) e v1"
    by metis
  then show "getOptimalCacheKey now u1 e v1 \<noteq> getOptimalCacheKey now u2 e v1"
    using a by (simp add: key_eq_iff)
qed

theorem cache_key_determined_by_witness:
  "''5f3a'' \<noteq> []
   \<and> getOptimalCacheKey example_day (example_url []) ''gzip'' (Some ''5f3a'')
       = getOptimalCacheKey \<lparr>utcFullYear = 2027, utcMonth = 0, utcDate = 2\<rparr> (example_url []) ''gzip'' (Some ''5f3a'')
   \<and> encoding_tag ''br'' = encoding_tag ''br, gzip''
   \<and> getOptimalCacheKey example_day (example_url []) ''br'' (Some ''5f3a'')
       = getOptimalCacheKey example_day (example_url []) ''br, gzip'' (Some ''5f3a'')
   \<and> encoding_tag ''gzip'' \<noteq> encoding_tag ''identity''
   \<and> filter (\<lambda>p. fst p = ''__enc'') (searchParams (example_url [])) = []
   \<and> getOptimalCacheKey example_day (example_url []) ''gzip'' (Some ''5f3a'')
       \<noteq> getOptimalCacheKey example_day (example_url []) ''identity'' (Some ''5f3a'')
   \<and> filter (\<lambda>p. fst p \<noteq> ''__v'' \<and> fst p \<noteq> ''__enc'') (searchParams (example_url [(''a'', ''1'')]))
       \<noteq> filter (\<lambda>p. fst p \<noteq> ''__v'' \<and> fst p \<noteq> ''__enc'') (searchParams (example_url [(''a'', ''2'')]))
   \<and> getOptimalCacheKey example_day (example_url [(''a'', ''1'')]) ''gzip'' (Some ''5f3a'')
       \<noteq> getOptimalCacheKey example_day (example_url [(''a'', ''2'')]) ''gzip'' (Some ''5f3a'')
   \<and> url_wf (example_url []) \<and> url_wf (other_path_url [])
   \<and> pathname (example_url []) \<noteq> pathname (other_path_url [])
   \<and> getOptimalCacheKey example_day (example_url []) ''gzip'' (Some ''5f3a'')
       \<noteq> getOptimalCacheKey example_day (other_path_url []) ''gzip'' (Some ''5f3a'')"
proof -
  have h6: "url_wf (example_url []) \<and> url_wf (other_path_url [])"
    by (simp add: url_wf_def example_url_def other_path_url_def)
  have h7: "pathname (example_url []) \<noteq> pathname (other_path_url [])"
    by (simp add: example_url_def other_path_url_def)
  note t3 = cache_key_determined_by
      [where ua = "example_url []" and ub = "other_path_url []" and nowa = example_day
         and nowb = example_day and ea = "''gzip''" and eb = "''gzip''"
         and va = "Some ''5f3a''" and vb = "Some ''5f3a''"]
  from t3 h6 h7 have c6: "getOptimalCacheKey example_day (example_url []) ''gzip'' (Some ''5f3a'')
       \<noteq> getOptimalCacheKey example_day (other_path_url []) ''gzip'' (Some ''5f3a'')"
    by blast
  have h1: "''5f3a'' \<noteq> []" by simp
  have h3: "encoding_tag ''br'' = encoding_tag ''br, gzip''" by (simp add: encoding_tag_def)
  have h4: "encoding_tag ''gzip'' \<noteq> encoding_tag ''identity''
     \<and> filter (\<lambda>p. fst p = ''__enc'') (searchParams (example_url [])) = []"
    by (simp add: encoding_tag_def example_url_def)
  have h5: "origin (example_url [(''a'', ''1'')]) = origin (example_url [(''a'', ''2'')])
     \<and> pathname (example_url [(''a'', ''1'')]) = pathname (example_url [(''a'', ''2'')])
     \<and> hash (example_url [(''a'', ''1'')]) = hash (example_url [(''a'', ''2'')])
     \<and> filter (\<lambda>p. fst p \<noteq> ''__v'' \<and> fst p \<noteq> ''__enc'') (searchParams (example_url [(''a'', ''1'')]))
       \<noteq> filter (\<lambda>p. fst p \<noteq> ''__v'' \<and> fst p \<noteq> ''__enc'') (searchParams (example_url [(''a'', ''2'')]))"
    by (simp add: example_url_def)
  note t1 = cache_key_determined_by
      [of "''5f3a''" example_day "example_url []" "''gzip''"
          "\<lparr>utcFullYear = 2027, utcMonth = 0, utcDate = 2\<rparr>"
          "Some ''5f3a''" "Some ''5f3a''" "''br''" "''br, gzip''"
          "example_url [(''a'', ''1'')]" "example_url [(''a'', ''2'')]"]
  note t2 = cache_key_determined_by
      [of "''5f3a''" example_day "example_url []" "''gzip''" example_day
          "Some ''5f3a''" "Some ''5f3a''" "''gzip''" "''identity''"
          "example_url [(''a'', ''1'')]" "example_url [(''a'', ''2'')]"]
  from t1 t2 h1 h3 h4 h5 h6 h7 c6 show ?thesis by blast
qed

section \<open>Claim C10: the reserved query parameters\<close>

text \<open>
  Claim C10: the key always carries exactly one \<^verbatim>\<open>__v\<close> pair, with the effective
  version as its value, whatever \<^verbatim>\<open>__v\<close> pairs the request URL had; the key is the URL
  with its query replaced by the serialization of the pairs of \<open>cacheUrl\<close>. When
  Accept-Encoding contains neither \<^verbatim>\<open>br\<close> nor \<^verbatim>\<open>gzip\<close>, the \<^verbatim>\<open>__enc\<close> pairs of the
  request URL are in the key unchanged, and two request URLs with the same origin, path and
  fragment whose \<^verbatim>\<open>__enc\<close> pairs differ give different keys.
\<close>

theorem cache_key_sets_v_keeps_enc:
  "filter (\<lambda>p. fst p = ''__v'') (searchParams (cacheUrl now u e v))
     = [(''__v'', effective_version now v)]
   \<and> getOptimalCacheKey now u e v
       = origin u @ pathname u @ ''?''
           @ urlencoded_serialize (searchParams (cacheUrl now u e v)) @ hash u
   \<and> (\<not> str_includes e ''br'' \<and> \<not> str_includes e ''gzip'' \<longrightarrow>
        filter (\<lambda>p. fst p = ''__enc'') (searchParams (cacheUrl now u e v))
          = filter (\<lambda>p. fst p = ''__enc'') (searchParams u))
   \<and> (\<not> str_includes e ''br'' \<and> \<not> str_includes e ''gzip''
        \<and> origin u1 = origin u2 \<and> pathname u1 = pathname u2 \<and> hash u1 = hash u2
        \<and> filter (\<lambda>p. fst p = ''__enc'') (searchParams u1)
            \<noteq> filter (\<lambda>p. fst p = ''__enc'') (searchParams u2) \<longrightarrow>
        getOptimalCacheKey now u1 e v \<noteq> getOptimalCacheKey now u2 e v)"
proof (intro conjI impI)
  show "filter (\<lambda>p. fst p = ''__v'') (searchParams (cacheUrl now u e v))
     = [(''__v'', effective_version now v)]"
    by (simp add: cacheUrl_simps key_params_filter_v)
  show "getOptimalCacheKey now u e v
       = origin u @ pathname u @ ''?''
           @ urlencoded_serialize (searchParams (cacheUrl now u e v)) @ hash u"
    by (simp add: cacheUrl_simps key_shape)
next
  assume "\<not> str_includes e ''br'' \<and> \<not> str_includes e ''gzip''"
  then have "encoding_tag e = None" by (simp add: encoding_tag_None_iff)
  then show "filter (\<lambda>p. fst p = ''__enc'') (searchParams (cacheUrl now u e v))
          = filter (\<lambda>p. fst p = ''__enc'') (searchParams u)"
    by (simp add: cacheUrl_simps key_params_filter_enc_none)
next
  let ?f = "filter (\<lambda>p. fst p = ''__enc'')"
  assume a: "\<not> str_includes e ''br'' \<and> \<not> str_includes e ''gzip''
        \<and> origin u1 = origin u2 \<and> pathname u1 = pathname u2 \<and> hash u1 = hash u2
        \<and> ?f (searchParams u1) \<noteq> ?f (searchParams u2)"
  then have n: "encoding_tag e = None" by (simp add: encoding_tag_None_iff)
  have "?f (key_params now (searchParams u1) e v) \<noteq> ?f (key_params now (searchParams u2) e v)"
    using a by (simp only: key_params_filter_enc_none[OF n]) simp
  then have "key_params now (searchParams u1) e v \<noteq> key_params now (searchParams u2) e v"
    by metis
  then show "getOptimalCacheKey now u1 e v \<noteq> getOptimalCacheKey now u2 e v"
    using a by (simp add: key_eq_iff)
qed

theorem cache_key_sets_v_keeps_enc_witness:
  "\<not> str_includes ''identity'' ''br'' \<and> \<not> str_includes ''identity'' ''gzip''
   \<and> filter (\<lambda>p. fst p = ''__enc'')
        (searchParams (cacheUrl example_day (example_url [(''__enc'', ''zz''), (''__v'', ''1'')]) ''identity'' None))
       = [(''__enc'', ''zz'')]
   \<and> filter (\<lambda>p. fst p = ''__enc'') (searchParams (example_url [(''__enc'', ''zz''), (''__v'', ''1'')]))
       \<noteq> filter (\<lambda>p. fst p = ''__enc'') (searchParams (example_url [(''__enc'', ''yy''), (''__v'', ''1'')]))
   \<and> getOptimalCacheKey example_day (example_url [(''__enc'', ''zz''), (''__v'', ''1'')]) ''identity'' None
       \<noteq> getOptimalCacheKey example_day (example_url [(''__enc'', ''yy''), (''__v'', ''1'')]) ''identity'' None
   \<and> getOptimalCacheKey example_day (example_url [(''__enc'', ''zz''), (''__v'', ''1'')]) ''identity'' None
       = ''https://gh.example.com/user/repo/raw/main/a.txt?__enc=zz&__v=20261101''"
proof -
  let ?u1 = "example_url [(''__enc'', ''zz''), (''__v'', ''1'')]"
  let ?u2 = "example_url [(''__enc'', ''yy''), (''__v'', ''1'')]"
  have h1: "\<not> str_includes ''identity'' ''br'' \<and> \<not> str_includes ''identity'' ''gzip''"
    by simp
  have h2: "origin ?u1 = origin ?u2 \<and> pathname ?u1 = pathname ?u2 \<and> hash ?u1 = hash ?u2
     \<and> filter (\<lambda>p. fst p = ''__enc'') (searchParams ?u1)
         \<noteq> filter (\<lambda>p. fst p = ''__enc'') (searchParams ?u2)"
    by (simp add: example_url_def)
  have h3: "filter (\<lambda>p. fst p = ''__enc'') (searchParams ?u1) = [(''__enc'', ''zz'')]"
    by (simp add: example_url_def)
  have h4: "getOptimalCacheKey example_day ?u1 ''identity'' None
       = ''https://gh.example.com/user/repo/raw/main/a.txt?__enc=zz&__v=20261101''"
    by (simp add: key_eval)
  note t = cache_key_sets_v_keeps_enc [of example_day ?u1 "''identity''" None ?u1 ?u2]
  from t h1 have "filter (\<lambda>p. fst p = ''__enc'')
        (searchParams (cacheUrl example_day ?u1 ''identity'' None))
       = filter (\<lambda>p. fst p = ''__enc'') (searchParams ?u1)"
    by blast
  then have c3: "filter (\<lambda>p. fst p = ''__enc'')
        (searchParams (cacheUrl example_day ?u1 ''identity'' None)) = [(''__enc'', ''zz'')]"
    by (simp only: h3)
  from t h1 h2 have c4: "getOptimalCacheKey example_day ?u1 ''identity'' None
       \<noteq> getOptimalCacheKey example_day ?u2 ''identity'' None"
    by blast
  from h1 h2 h4 c3 c4 show ?thesis by blast
qed

section \<open>The handler's trace\<close>

lemma concat_split_on: "concat (split_on sep s) = filter (\<lambda>c. c \<noteq> sep) s"
  by (induction s) (auto split: list.splits)

lemma segments_empty_iff: "segments p = [] \<longleftrightarrow> set p \<subseteq> {CHR ''/''}"
proof -
  have "segments p = [] \<longleftrightarrow> (\<forall>part \<in> set (split_on (CHR ''/'') p). part = [])"
    by (auto simp: segments_def filter_empty_conv)
  also have "\<dots> \<longleftrightarrow> concat (split_on (CHR ''/'') p) = []" by auto
  also have "\<dots> \<longleftrightarrow> set p \<subseteq> {CHR ''/''}"
    by (auto simp: concat_split_on filter_empty_conv)
  finally show ?thesis .
qed

lemma parse_None_iff: "parseGitHubPath p = None \<longleftrightarrow> segments p = []"
  by (auto simp: parseGitHubPath_def split: list.splits prod.splits)

lemma trace_keys_append [simp]:
  "looked_up (a @ b) = looked_up a @ looked_up b"
  "stored_keys (a @ b) = stored_keys a @ stored_keys b"
  by (simp_all add: looked_up_def stored_keys_def)

lemma retry_trace_no_cache: "looked_up (retry_trace i k) = [] \<and> stored_keys (retry_trace i k) = []"
  by (induction i k rule: retry_trace.induct) (simp_all add: looked_up_def stored_keys_def)

lemma fetchWithRetry_no_cache:
  "looked_up (snd (fetchWithRetry f n)) = [] \<and> stored_keys (snd (fetchWithRetry f n)) = []"
  using from_shape[of n f] retry_trace_no_cache by auto

lemma handler_invalid_path:
  "segments (pathname (req_url request)) = [] \<Longrightarrow>
   fetch_handler e request = (Returned invalid_path_response, [])"
  using parse_None_iff[of "pathname (req_url request)"] by (simp add: fetch_handler_def)

lemma handler_looked_up:
  "looked_up (snd (fetch_handler e request)) =
     (if segments (pathname (req_url request)) \<noteq> [] \<and> req_method request = ''GET''
         \<and> \<not> isRange request
      then [initialCacheKey (env_today e) request] else [])"
proof (cases "parseGitHubPath (pathname (req_url request))")
  case None
  then show ?thesis using parse_None_iff[of "pathname (req_url request)"]
    by (simp add: fetch_handler_def looked_up_def)
next
  case (Some g)
  then have seg: "segments (pathname (req_url request)) \<noteq> []"
    using parse_None_iff[of "pathname (req_url request)"] by simp
  let ?U = "env_upstream e (fullUrl g @ search (req_url request)) (req_method request)
              (passHeaders request)"
  obtain res tr where ft: "fetchWithRetry ?U MAX_RETRIES = (res, tr)"
    by (cases "fetchWithRetry ?U MAX_RETRIES")
  have tr: "looked_up tr = []" using fetchWithRetry_no_cache[of ?U MAX_RETRIES] ft by simp
  show ?thesis
    using Some seg ft tr
    by (cases res)
       (auto simp: fetch_handler_def Let_def looked_up_def split: option.splits)
qed


lemma handler_stored:
  "stored_keys (snd (fetch_handler e request)) \<noteq> [] \<longleftrightarrow>
     (\<exists>g r. parseGitHubPath (pathname (req_url request)) = Some g
        \<and> req_method request = ''GET'' \<and> \<not> isRange request
        \<and> env_cache e (initialCacheKey (env_today e) request) = None
        \<and> fst (fetchWithRetry
                  (env_upstream e (fullUrl g @ search (req_url request)) ''GET''
                     (passHeaders request))
                  MAX_RETRIES) = Returned r
        \<and> status r = 200)"
proof (cases "parseGitHubPath (pathname (req_url request))")
  case None
  then show ?thesis by (simp add: fetch_handler_def stored_keys_def)
next
  case (Some g)
  let ?U = "env_upstream e (fullUrl g @ search (req_url request)) (req_method request)
              (passHeaders request)"
  obtain res tr where ft: "fetchWithRetry ?U MAX_RETRIES = (res, tr)"
    by (cases "fetchWithRetry ?U MAX_RETRIES")
  have tr: "stored_keys tr = []" using fetchWithRetry_no_cache[of ?U MAX_RETRIES] ft by simp
  show ?thesis
    using Some ft tr
    by (cases res)
       (auto simp: fetch_handler_def Let_def stored_keys_def split: option.splits)
qed

lemmas handler_eval = fetch_handler_def parseGitHubPath_def segments_def GITHUB_HOSTS_def
  strategy_defs key_eval isRange_def truthy_def passHeaders_def fetchWithRetry_def
  fetchWithRetry_from.simps MAX_RETRIES_def upstream_200_def etag_response_def ok_def
  finalCacheKey_def extractETag_def strip_etag_def dquote_def ENABLE_EARLY_HINTS_def
  empty_cache_def looked_up_def stored_keys_def

lemma handler_stored_key:
  assumes "k \<in> set (stored_keys (snd (fetch_handler e request)))"
  shows "\<exists>g r. parseGitHubPath (pathname (req_url request)) = Some g
           \<and> fst (fetchWithRetry
                     (env_upstream e (fullUrl g @ search (req_url request)) (req_method request)
                        (passHeaders request))
                     MAX_RETRIES) = Returned r
           \<and> k = finalCacheKey (env_today e) request (getCacheStrategy (path g)) r"
proof (cases "parseGitHubPath (pathname (req_url request))")
  case None
  then show ?thesis using assms by (simp add: fetch_handler_def stored_keys_def)
next
  case (Some g)
  let ?U = "env_upstream e (fullUrl g @ search (req_url request)) (req_method request)
              (passHeaders request)"
  obtain res tr where ft: "fetchWithRetry ?U MAX_RETRIES = (res, tr)"
    by (cases "fetchWithRetry ?U MAX_RETRIES")
  have tr: "stored_keys tr = []" using fetchWithRetry_no_cache[of ?U MAX_RETRIES] ft by simp
  show ?thesis
    using Some ft tr assms
    by (cases res)
       (auto simp: fetch_handler_def Let_def stored_keys_def split: option.splits if_splits)
qed

lemma example_stored_key:
  "stored_keys (snd (fetch_handler example_env (example_request ''GET'' ''/user/repo/x'' [])))
     = [''https://gh.example.com/user/repo/x?__v=5f3a'']"
  by (simp add: handler_eval)

section \<open>Claim C1: the order of the path check and the method check\<close>

text \<open>
  Claim C1 says that the method is checked before the path, so that \<^verbatim>\<open>OPTIONS\<close> gets
  204 and an unsupported method gets 405 on every path. The handler resolves the path
  first: on the bare path \<^verbatim>\<open>/\<close> both an \<^verbatim>\<open>OPTIONS\<close> and a \<^verbatim>\<open>DELETE\<close> request get
  the 400 response.
\<close>

theorem options_on_bare_path_counterexample:
  "req_method (example_request ''OPTIONS'' ''/'' []) = ''OPTIONS''
   \<and> fetch_handler example_env (example_request ''OPTIONS'' ''/'' [])
       = (Returned invalid_path_response, [])
   \<and> req_method (example_request ''DELETE'' ''/'' []) = ''DELETE''
   \<and> fetch_handler example_env (example_request ''DELETE'' ''/'' [])
       = (Returned invalid_path_response, [])
   \<and> status invalid_path_response = 400"
  by (simp add: fetch_handler_def parseGitHubPath_def segments_def example_request_def
      invalid_path_response_def)

text \<open>
  Claim C1, amended: path resolution precedes method validation. A request whose path has
  no non-empty segment gets the 400 response whatever its method. For every request whose
  path has a non-empty segment, the method \<^verbatim>\<open>OPTIONS\<close> gets the 204 response with the
  four CORS headers and no body, and a method other than \<^verbatim>\<open>GET\<close>, \<^verbatim>\<open>HEAD\<close> and
  \<^verbatim>\<open>OPTIONS\<close> gets 405; in all three cases the trace is empty: no cache lookup and no
  upstream call.
\<close>

theorem path_checked_before_method:
  "(segments (pathname (req_url r0)) = [] \<longrightarrow>
      fetch_handler e r0 = (Returned invalid_path_response, []))
   \<and> (segments (pathname (req_url r1)) \<noteq> [] \<and> req_method r1 = ''OPTIONS'' \<longrightarrow>
        fetch_handler e r1 = (Returned preflight_response, []))
   \<and> (segments (pathname (req_url r2)) \<noteq> [] \<and> req_method r2 \<noteq> ''GET''
        \<and> req_method r2 \<noteq> ''HEAD'' \<and> req_method r2 \<noteq> ''OPTIONS'' \<longrightarrow>
        fetch_handler e r2 = (Returned method_not_allowed_response, []))
   \<and> status invalid_path_response = 400
   \<and> status preflight_response = 204 \<and> body preflight_response = None
   \<and> resp_headers preflight_response =
        [(''access-control-allow-origin'', ''*''),
         (''access-control-allow-methods'', ''GET,HEAD,OPTIONS''),
         (''access-control-allow-headers'', ''*''),
         (''access-control-max-age'', ''86400'')]
   \<and> status method_not_allowed_response = 405"
proof (intro conjI impI)
  assume "segments (pathname (req_url r0)) = []"
  then show "fetch_handler e r0 = (Returned invalid_path_response, [])"
    by (rule handler_invalid_path)
next
  assume a: "segments (pathname (req_url r1)) \<noteq> [] \<and> req_method r1 = ''OPTIONS''"
  then obtain g where "parseGitHubPath (pathname (req_url r1)) = Some g"
    using parse_None_iff[of "pathname (req_url r1)"] by auto
  then show "fetch_handler e r1 = (Returned preflight_response, [])"
    using a by (simp add: fetch_handler_def)
next
  assume a: "segments (pathname (req_url r2)) \<noteq> [] \<and> req_method r2 \<noteq> ''GET''
        \<and> req_method r2 \<noteq> ''HEAD'' \<and> req_method r2 \<noteq> ''OPTIONS''"
  then obtain g where "parseGitHubPath (pathname (req_url r2)) = Some g"
    using parse_None_iff[of "pathname (req_url r2)"] by auto
  then show "fetch_handler e r2 = (Returned method_not_allowed_response, [])"
    using a by (simp add: fetch_handler_def)
qed (simp_all add: invalid_path_response_def preflight_response_def
      method_not_allowed_response_def)

theorem path_checked_before_method_witness:
  "segments (pathname (req_url (example_request ''OPTIONS'' ''/'' []))) = []
   \<and> fetch_handler example_env (example_request ''OPTIONS'' ''/'' [])
       = (Returned invalid_path_response, [])
   \<and> segments (pathname (req_url (example_request ''OPTIONS'' ''/user/repo'' []))) \<noteq> []
   \<and> req_method (example_request ''OPTIONS'' ''/user/repo'' []) = ''OPTIONS''
   \<and> fetch_handler example_env (example_request ''OPTIONS'' ''/user/repo'' [])
       = (Returned preflight_response, [])
   \<and> segments (pathname (req_url (example_request ''POST'' ''/user/repo'' []))) \<noteq> []
   \<and> req_method (example_request ''POST'' ''/user/repo'' []) = ''POST''
   \<and> fetch_handler example_env (example_request ''POST'' ''/user/repo'' [])
       = (Returned method_not_allowed_response, [])"
proof -
  have h0: "segments (pathname (req_url (example_request ''OPTIONS'' ''/'' []))) = []"
    by (simp add: example_request_def segments_def)
  have h1: "segments (pathname (req_url (example_request ''OPTIONS'' ''/user/repo'' []))) \<noteq> []
     \<and> req_method (example_request ''OPTIONS'' ''/user/repo'' []) = ''OPTIONS''"
    by (simp add: example_request_def segments_def)
  have h2: "segments (pathname (req_url (example_request ''POST'' ''/user/repo'' []))) \<noteq> []
     \<and> req_method (example_request ''POST'' ''/user/repo'' []) = ''POST''
     \<and> req_method (example_request ''POST'' ''/user/repo'' []) \<noteq> ''GET''
     \<and> req_method (example_request ''POST'' ''/user/repo'' []) \<noteq> ''HEAD''
     \<and> req_method (example_request ''POST'' ''/user/repo'' []) \<noteq> ''OPTIONS''"
    by (simp add: example_request_def segments_def)
  note t = path_checked_before_method
      [of "example_request ''OPTIONS'' ''/'' []" example_env
          "example_request ''OPTIONS'' ''/user/repo'' []"
          "example_request ''POST'' ''/user/repo'' []"]
  from t h0 h1 h2 show ?thesis by blast
qed

section \<open>Claim C7: resolving the path\<close>

text \<open>
  Claim C7: when the first non-empty segment of the path is one of the recognized hosts,
  \<open>parseGitHubPath\<close> returns it as the host and the other segments, joined by \<^verbatim>\<open>/\<close>
  after a leading \<^verbatim>\<open>/\<close>, as the path; when the first non-empty segment is not a
  recognized host it returns \<^verbatim>\<open>github.com\<close> and the whole input path; a path without a
  non-empty segment (one made of slashes only, or empty) gives \<^verbatim>\<open>null\<close>, which the
  handler answers with the 400 response of content type \<^verbatim>\<open>text/plain\<close>; and on success
  \<open>fullUrl\<close> is \<^verbatim>\<open>https://\<close> followed by the host and the path.
\<close>

theorem parseGitHubPath_resolves:
  "(segments p = first # rest \<and> first \<in> set GITHUB_HOSTS \<longrightarrow>
      parseGitHubPath p =
        Some \<lparr>host = first, path = ''/'' @ join ''/'' rest,
               fullUrl = ''https://'' @ first @ ''/'' @ join ''/'' rest\<rparr>)
   \<and> (segments p' = first' # rest' \<and> first' \<notin> set GITHUB_HOSTS \<longrightarrow>
        parseGitHubPath p' =
          Some \<lparr>host = ''github.com'', path = p', fullUrl = ''https://github.com'' @ p'\<rparr>)
   \<and> (segments p0 = [] \<longrightarrow> parseGitHubPath p0 = None)
   \<and> (segments p0 = [] \<longleftrightarrow> set p0 \<subseteq> {CHR ''/''})
   \<and> (parseGitHubPath (pathname (req_url request)) = None \<longrightarrow>
        fetch_handler e request = (Returned invalid_path_response, []))
   \<and> status invalid_path_response = 400
   \<and> map_of (resp_headers invalid_path_response) ''content-type'' = Some ''text/plain''
   \<and> (parseGitHubPath q = Some g \<longrightarrow> fullUrl g = ''https://'' @ host g @ path g)"
proof (intro conjI impI)
  assume "segments p = first # rest \<and> first \<in> set GITHUB_HOSTS"
  then show "parseGitHubPath p =
        Some \<lparr>host = first, path = ''/'' @ join ''/'' rest,
               fullUrl = ''https://'' @ first @ ''/'' @ join ''/'' rest\<rparr>"
    by (simp add: parseGitHubPath_def)
next
  assume "segments p' = first' # rest' \<and> first' \<notin> set GITHUB_HOSTS"
  then show "parseGitHubPath p' =
          Some \<lparr>host = ''github.com'', path = p', fullUrl = ''https://github.com'' @ p'\<rparr>"
    by (simp add: parseGitHubPath_def)
next
  assume "segments p0 = []"
  then show "parseGitHubPath p0 = None" by (simp add: parse_None_iff)
next
  show "segments p0 = [] \<longleftrightarrow> set p0 \<subseteq> {CHR ''/''}" by (rule segments_empty_iff)
next
  assume "parseGitHubPath (pathname (req_url request)) = None"
  then show "fetch_handler e request = (Returned invalid_path_response, [])"
    by (simp add: fetch_handler_def)
next
  assume "parseGitHubPath q = Some g"
  then show "fullUrl g = ''https://'' @ host g @ path g"
    by (auto simp: parseGitHubPath_def split: list.splits if_splits)
qed (simp_all add: invalid_path_response_def)

theorem parseGitHubPath_resolves_witness:
  "segments ''/raw.githubusercontent.com/user/repo/main/a.txt''
     = ''raw.githubusercontent.com'' # [''user'', ''repo'', ''main'', ''a.txt'']
   \<and> ''raw.githubusercontent.com'' \<in> set GITHUB_HOSTS
   \<and> parseGitHubPath ''/raw.githubusercontent.com/user/repo/main/a.txt''
       = Some \<lparr>host = ''raw.githubusercontent.com'', path = ''/user/repo/main/a.txt'',
                fullUrl = ''https://raw.githubusercontent.com/user/repo/main/a.txt''\<rparr>
   \<and> segments ''/user/repo//x'' = ''user'' # [''repo'', ''x'']
   \<and> ''user'' \<notin> set GITHUB_HOSTS
   \<and> parseGitHubPath ''/user/repo//x''
       = Some \<lparr>host = ''github.com'', path = ''/user/repo//x'',
                fullUrl = ''https://github.com/user/repo//x''\<rparr>
   \<and> fullUrl \<lparr>host = ''github.com'', path = ''/user/repo//x'',
                fullUrl = ''https://github.com/user/repo//x''\<rparr>
       = ''https://'' @ ''github.com'' @ ''/user/repo//x''
   \<and> segments ''//'' = [] \<and> parseGitHubPath ''//'' = None
   \<and> parseGitHubPath (pathname (req_url (example_request ''GET'' ''//'' []))) = None
   \<and> fetch_handler example_env (example_request ''GET'' ''//'' [])
       = (Returned invalid_path_response, [])"
proof -
  have h1: "segments ''/raw.githubusercontent.com/user/repo/main/a.txt''
     = ''raw.githubusercontent.com'' # [''user'', ''repo'', ''main'', ''a.txt'']
     \<and> ''raw.githubusercontent.com'' \<in> set GITHUB_HOSTS"
    by (simp add: segments_def GITHUB_HOSTS_def)
  have h2: "segments ''/user/repo//x'' = ''user'' # [''repo'', ''x'']
     \<and> ''user'' \<notin> set GITHUB_HOSTS"
    by (simp add: segments_def GITHUB_HOSTS_def)
  have h3: "segments ''//'' = []" by (simp add: segments_def)
  have h4: "parseGitHubPath (pathname (req_url (example_request ''GET'' ''//'' []))) = None"
    by (simp add: example_request_def parseGitHubPath_def segments_def)
  have h5: "parseGitHubPath ''/user/repo//x''
       = Some \<lparr>host = ''github.com'', path = ''/user/repo//x'',
                fullUrl = ''https://github.com/user/repo//x''\<rparr>"
    by (simp add: parseGitHubPath_def segments_def GITHUB_HOSTS_def)
  note t = parseGitHubPath_resolves
      [of "''/raw.githubusercontent.com/user/repo/main/a.txt''" "''raw.githubusercontent.com''"
          "[''user'', ''repo'', ''main'', ''a.txt'']"
          "''/user/repo//x''" "''user''" "[''repo'', ''x'']" "''//''"
          "example_request ''GET'' ''//'' []" example_env "''/user/repo//x''"
          "\<lparr>host = ''github.com'', path = ''/user/repo//x'',
                fullUrl = ''https://github.com/user/repo//x''\<rparr>"]
  from t h1 have c1: "parseGitHubPath ''/raw.githubusercontent.com/user/repo/main/a.txt''
       = Some \<lparr>host = ''raw.githubusercontent.com'', path = ''/'' @ join ''/'' [''user'', ''repo'', ''main'', ''a.txt''],
                fullUrl = ''https://'' @ ''raw.githubusercontent.com'' @ ''/'' @ join ''/'' [''user'', ''repo'', ''main'', ''a.txt'']\<rparr>"
    by blast
  from t h2 have c2: "parseGitHubPath ''/user/repo//x''
       = Some \<lparr>host = ''github.com'', path = ''/user/repo//x'',
                fullUrl = ''https://github.com'' @ ''/user/repo//x''\<rparr>"
    by blast
  from t h3 have c3: "parseGitHubPath ''//'' = None" by blast
  from t h4 have c4: "fetch_handler example_env (example_request ''GET'' ''//'' [])
       = (Returned invalid_path_response, [])"
    by blast
  from h1 h2 h3 h4 c1 c2 c3 c4 show ?thesis by simp
qed

section \<open>Claim C9: when the edge cache is read and written\<close>

text \<open>
  Claim C9 says that the lookup happens exactly when the method is \<^verbatim>\<open>GET\<close> and there
  is no Range header, and that a \<^verbatim>\<open>GET\<close> with a Range header skips lookup and write.
  A \<^verbatim>\<open>GET\<close> of the bare path \<^verbatim>\<open>/\<close> without a Range header is answered with 400
  before any lookup; and a Range header with an empty value is falsy in
  \<^verbatim>\<open>!!request.headers.get("range")\<close>, so such a \<^verbatim>\<open>GET\<close> is looked up and stored.
\<close>

theorem range_counterexample:
  "req_method (example_request ''GET'' ''/'' []) = ''GET''
   \<and> map_of (req_headers (example_request ''GET'' ''/'' [])) ''range'' = None
   \<and> looked_up (snd (fetch_handler example_env (example_request ''GET'' ''/'' []))) = []
   \<and> map_of (req_headers (example_request ''GET'' ''/user/repo/x'' [(''range'', [])])) ''range''
       = Some []
   \<and> looked_up (snd (fetch_handler example_env
         (example_request ''GET'' ''/user/repo/x'' [(''range'', [])])))
       = [''https://gh.example.com/user/repo/x?__v=20261101'']
   \<and> stored_keys (snd (fetch_handler example_env
         (example_request ''GET'' ''/user/repo/x'' [(''range'', [])])))
       = [''https://gh.example.com/user/repo/x?__v=5f3a'']"
  by (simp add: handler_eval)

text \<open>
  Claim C9, amended: the lookup is attempted exactly when the path has a non-empty segment,
  the method is \<^verbatim>\<open>GET\<close> and \<open>isRange\<close> is false, where \<open>isRange\<close> holds exactly
  when the request has a Range header with a non-empty value. The cache write is scheduled
  exactly when, in addition, the lookup found nothing and \<open>fetchWithRetry\<close> returned a
  response whose status is exactly 200. In particular a \<^verbatim>\<open>GET\<close> request with a
  non-empty Range header causes neither a lookup nor a write, whatever the upstream does.
\<close>

theorem cache_lookup_and_store_conditions:
  "(looked_up (snd (fetch_handler e request)) \<noteq> [] \<longleftrightarrow>
      segments (pathname (req_url request)) \<noteq> [] \<and> req_method request = ''GET''
      \<and> \<not> isRange request)
   \<and> (stored_keys (snd (fetch_handler e request)) \<noteq> [] \<longleftrightarrow>
        (\<exists>g r. parseGitHubPath (pathname (req_url request)) = Some g
           \<and> req_method request = ''GET'' \<and> \<not> isRange request
           \<and> env_cache e (initialCacheKey (env_today e) request) = None
           \<and> fst (fetchWithRetry
                     (env_upstream e (fullUrl g @ search (req_url request)) ''GET''
                        (passHeaders request))
                     MAX_RETRIES) = Returned r
           \<and> status r = 200))
   \<and> (isRange request \<longleftrightarrow>
        (\<exists>v. map_of (req_headers request) ''range'' = Some v \<and> v \<noteq> []))
   \<and> (req_method request = ''GET'' \<and> isRange request \<longrightarrow>
        looked_up (snd (fetch_handler e request)) = []
        \<and> stored_keys (snd (fetch_handler e request)) = [])"
proof (intro conjI impI)
  show "looked_up (snd (fetch_handler e request)) \<noteq> [] \<longleftrightarrow>
      segments (pathname (req_url request)) \<noteq> [] \<and> req_method request = ''GET''
      \<and> \<not> isRange request"
    by (simp add: handler_looked_up)
  show "stored_keys (snd (fetch_handler e request)) \<noteq> [] \<longleftrightarrow>
        (\<exists>g r. parseGitHubPath (pathname (req_url request)) = Some g
           \<and> req_method request = ''GET'' \<and> \<not> isRange request
           \<and> env_cache e (initialCacheKey (env_today e) request) = None
           \<and> fst (fetchWithRetry
                     (env_upstream e (fullUrl g @ search (req_url request)) ''GET''
                        (passHeaders request))
                     MAX_RETRIES) = Returned r
           \<and> status r = 200)"
    by (rule handler_stored)
  show "isRange request \<longleftrightarrow>
        (\<exists>v. map_of (req_headers request) ''range'' = Some v \<and> v \<noteq> [])"
    by (auto simp: isRange_def truthy_def split: option.splits)
next
  assume a: "req_method request = ''GET'' \<and> isRange request"
  show "looked_up (snd (fetch_handler e request)) = []"
    using a by (simp add: handler_looked_up)
  show "stored_keys (snd (fetch_handler e request)) = []"
    using a handler_stored[of e request] by blast
qed

theorem cache_lookup_and_store_conditions_witness:
  "req_method (example_request ''GET'' ''/user/repo/x'' [(''range'', ''bytes=0-99'')]) = ''GET''
   \<and> isRange (example_request ''GET'' ''/user/repo/x'' [(''range'', ''bytes=0-99'')])
   \<and> looked_up (snd (fetch_handler example_env
         (example_request ''GET'' ''/user/repo/x'' [(''range'', ''bytes=0-99'')]))) = []
   \<and> stored_keys (snd (fetch_handler example_env
         (example_request ''GET'' ''/user/repo/x'' [(''range'', ''bytes=0-99'')]))) = []"
proof -
  have h: "req_method (example_request ''GET'' ''/user/repo/x'' [(''range'', ''bytes=0-99'')]) = ''GET''
     \<and> isRange (example_request ''GET'' ''/user/repo/x'' [(''range'', ''bytes=0-99'')])"
    by (simp add: example_request_def isRange_def truthy_def)
  note t = cache_lookup_and_store_conditions
      [of example_env "example_request ''GET'' ''/user/repo/x'' [(''range'', ''bytes=0-99'')]"]
  from t h show ?thesis by blast
qed

section \<open>Claim C3: the ETag key and the date key\<close>

text \<open>
  Claim C3 says that every version string other than the date stamp gives a key other than
  the date key. The empty string is such a version string, and it is falsy:
  \<^verbatim>\<open>version || getCacheVersion()\<close> replaces it by the date stamp, so the two keys are
  equal.
\<close>

theorem empty_version_counterexample:
  "[] \<noteq> getCacheVersion example_day
   \<and> getOptimalCacheKey example_day (example_url []) ''gzip'' (Some [])
       = getOptimalCacheKey example_day (example_url []) ''gzip'' None"
  by (simp add: example_stamp getOptimalCacheKey_def cacheUrl_def effective_version_def)

text \<open>
  Claim C3, amended: for every request URL \<open>u\<close>, Accept-Encoding value \<open>e\<close> and every
  non-empty version \<open>v\<close> other than the current UTC date stamp,
  \<open>getOptimalCacheKey(u, e, v)\<close> differs from \<open>getOptimalCacheKey(u, e, null)\<close> on the
  same day. In the handler the final key equals the lookup key exactly when no ETag
  superseded the date version: the strategy does not use ETags, or the normalized ETag is
  missing or empty, or it equals the date stamp. Every key the handler writes to the cache
  is the final key of the upstream's response. A response stored under a key other than the
  lookup key does not change what the handler does with the identical request on the same
  day: the lookup cannot match the stored entry.
\<close>

theorem etag_key_differs_from_date_key:
  "(v \<noteq> [] \<and> v \<noteq> getCacheVersion now \<longrightarrow>
      getOptimalCacheKey now u e (Some v) \<noteq> getOptimalCacheKey now u e None)
   \<and> (finalCacheKey today request strategy resp = initialCacheKey today request
        \<longleftrightarrow> \<not> (useETag strategy \<and> truthy (extractETag resp)
               \<and> extractETag resp \<noteq> Some (getCacheVersion today)))
   \<and> (k' \<in> set (stored_keys (snd (fetch_handler env0 request'))) \<longrightarrow>
        (\<exists>g r. parseGitHubPath (pathname (req_url request')) = Some g
           \<and> fst (fetchWithRetry
                     (env_upstream env0 (fullUrl g @ search (req_url request'))
                        (req_method request') (passHeaders request'))
                     MAX_RETRIES) = Returned r
           \<and> k' = finalCacheKey (env_today env0) request' (getCacheStrategy (path g)) r))
   \<and> (k \<noteq> initialCacheKey (env_today env0) request' \<longrightarrow>
        fetch_handler (env0\<lparr>env_cache := (env_cache env0)(k \<mapsto> out)\<rparr>) request'
          = fetch_handler env0 request')"
proof (intro conjI impI)
  assume "k' \<in> set (stored_keys (snd (fetch_handler env0 request')))"
  then show "\<exists>g r. parseGitHubPath (pathname (req_url request')) = Some g
           \<and> fst (fetchWithRetry
                     (env_upstream env0 (fullUrl g @ search (req_url request'))
                        (req_method request') (passHeaders request'))
                     MAX_RETRIES) = Returned r
           \<and> k' = finalCacheKey (env_today env0) request' (getCacheStrategy (path g)) r"
    by (rule handler_stored_key)
next
  assume "v \<noteq> [] \<and> v \<noteq> getCacheVersion now"
  then show "getOptimalCacheKey now u e (Some v) \<noteq> getOptimalCacheKey now u e None"
    by (simp add: key_version_iff effective_version_def)
next
  show "finalCacheKey today request strategy resp = initialCacheKey today request
        \<longleftrightarrow> \<not> (useETag strategy \<and> truthy (extractETag resp)
               \<and> extractETag resp \<noteq> Some (getCacheVersion today))"
    by (auto simp: finalCacheKey_def initialCacheKey_def truthy_def key_version_iff
        effective_version_def split: option.splits)
next
  assume "k \<noteq> initialCacheKey (env_today env0) request'"
  then show "fetch_handler (env0\<lparr>env_cache := (env_cache env0)(k \<mapsto> out)\<rparr>) request'
          = fetch_handler env0 request'"
    by (simp add: fetch_handler_def Let_def
        cong: option.case_cong prod.case_cong completion.case_cong if_cong)
qed


theorem etag_key_differs_from_date_key_witness:
  "''5f3a'' \<noteq> [] \<and> ''5f3a'' \<noteq> getCacheVersion example_day
   \<and> getOptimalCacheKey example_day (example_url []) ''gzip'' (Some ''5f3a'')
       \<noteq> getOptimalCacheKey example_day (example_url []) ''gzip'' None
   \<and> ''https://gh.example.com/user/repo/x?__v=5f3a''
       \<in> set (stored_keys (snd (fetch_handler example_env
                 (example_request ''GET'' ''/user/repo/x'' []))))
   \<and> ''https://gh.example.com/user/repo/x?__v=5f3a''
       \<noteq> initialCacheKey (env_today example_env) (example_request ''GET'' ''/user/repo/x'' [])
   \<and> fetch_handler
         (example_env\<lparr>env_cache :=
            (env_cache example_env)(''https://gh.example.com/user/repo/x?__v=5f3a'' \<mapsto> bare 200)\<rparr>)
         (example_request ''GET'' ''/user/repo/x'' [])
       = fetch_handler example_env (example_request ''GET'' ''/user/repo/x'' [])"
proof -
  have h1: "''5f3a'' \<noteq> [] \<and> ''5f3a'' \<noteq> getCacheVersion example_day"
    by (simp add: example_stamp)
  have h2: "''https://gh.example.com/user/repo/x?__v=5f3a''
       \<noteq> initialCacheKey (env_today example_env) (example_request ''GET'' ''/user/repo/x'' [])"
    by (simp add: example_initial_key)
  have h3: "''https://gh.example.com/user/repo/x?__v=5f3a''
       \<in> set (stored_keys (snd (fetch_handler example_env
                 (example_request ''GET'' ''/user/repo/x'' []))))"
    by (simp add: example_stored_key)
  note t = etag_key_differs_from_date_key
      [of "''5f3a''" example_day "example_url []" "''gzip''" example_day
          "example_request ''GET'' ''/user/repo/x'' []" default_strategy "bare 200"
          "''https://gh.example.com/user/repo/x?__v=5f3a''" example_env
          "example_request ''GET'' ''/user/repo/x'' []"
          "''https://gh.example.com/user/repo/x?__v=5f3a''" "bare 200"]
  from t h1 h2 h3 show ?thesis by blast
qed

end
